theory Spec2Isabelle
  imports Complex_Main "HOL-Library.AList" "HOL-Library.List_Lexorder"
    "HOL-Library.Product_Lexorder" "HOL-Library.Multiset"
begin

section \<open>Python exceptions\<close>

text \<open>
  Every \<^verbatim>\<open>raise\<close> of the modelled scripts is a value of this type; a function that can
  raise returns \<open>py_error + 'a\<close>, with \<open>Inl\<close> for the exception that leaves the function.
\<close>

datatype py_error =
    ValueError
  | IndexError
  | KeyError
  | ZeroDivisionError
  | EOFError
  | AttributeError
  | TypeError
  | PermissionError
  | OtherError

section \<open>slack-gif-creator/core/gif\_builder.py\<close>

text \<open>
  A frame is a numpy array; the builder never looks inside one except through numpy and PIL.
  The type of frames is therefore a parameter \<open>'f\<close>, and the library calls are parameters
  of the functions that use them.

  The result of \<^verbatim>\<open>1.0 - np.mean(diff) / 255.0\<close> is a float that may be NaN (the mean of
  an empty array); \<^verbatim>\<open>nan < threshold\<close> is false in Python.
\<close>

datatype score = NaN | Score real

fun score_less :: "score \<Rightarrow> real \<Rightarrow> bool" where
  "score_less NaN t = False"
| "score_less (Score s) t = (s < t)"

record 'f gif_builder =
  width :: int
  height :: int
  fps :: int
  frames :: "'f list"

text \<open>
  The loop of \<^verbatim>\<open>deduplicate_frames\<close> over \<^verbatim>\<open>range(1, len(self.frames))\<close>. The
  parameter \<open>sim\<close> is the numpy computation of the similarity of the last kept frame and
  the current one; it is \<open>Inl\<close> when numpy raises (arrays whose shapes do not broadcast).
  \<open>deduplicated\<close> is never empty here, so \<open>last\<close> is Python's \<^verbatim>\<open>deduplicated[-1]\<close>.
\<close>

fun dedup_loop ::
  "('f \<Rightarrow> 'f \<Rightarrow> py_error + score) \<Rightarrow> real \<Rightarrow> 'f list \<Rightarrow> nat \<Rightarrow> 'f list
    \<Rightarrow> py_error + ('f list \<times> nat)" where
  "dedup_loop sim threshold deduplicated removed_count [] = Inr (deduplicated, removed_count)"
| "dedup_loop sim threshold deduplicated removed_count (curr_frame # rest) =
     (case sim (last deduplicated) curr_frame of
        Inl e \<Rightarrow> Inl e
      | Inr similarity \<Rightarrow>
          if score_less similarity threshold
          then dedup_loop sim threshold (deduplicated @ [curr_frame]) removed_count rest
          else dedup_loop sim threshold deduplicated (removed_count + 1) rest)"

text \<open>
  \<^verbatim>\<open>deduplicate_frames\<close> returns the number of removed frames and stores the kept frames
  in the builder; when numpy raises, the builder is left as it was.
\<close>

definition deduplicate_frames ::
  "('f \<Rightarrow> 'f \<Rightarrow> py_error + score) \<Rightarrow> real \<Rightarrow> 'f gif_builder
    \<Rightarrow> py_error + (nat \<times> 'f gif_builder)" where
  "deduplicate_frames sim threshold self =
     (if length (frames self) < 2 then Inr (0, self)
      else case dedup_loop sim threshold [hd (frames self)] 0 (tl (frames self)) of
             Inl e \<Rightarrow> Inl e
           | Inr (deduplicated, removed_count) \<Rightarrow>
               Inr (removed_count, self\<lparr>frames := deduplicated\<rparr>))"

text \<open>
  The similarity itself, for frames given as the flattened list of their channel values
  (0 to 255) and exact real arithmetic in place of float32: frames of different sizes do
  not broadcast (numpy raises \<^verbatim>\<open>ValueError\<close>), and the mean of no value is NaN.
\<close>

definition similarity :: "nat list \<Rightarrow> nat list \<Rightarrow> py_error + score" where
  "similarity prev_frame curr_frame =
     (if length prev_frame \<noteq> length curr_frame then Inl ValueError
      else if prev_frame = [] then Inr NaN
      else Inr (Score (1 - (real_of_int (\<Sum>(p, c) \<leftarrow> zip prev_frame curr_frame. \<bar>int p - int c\<bar>)
                              / real (length prev_frame)) / 255)))"

text \<open>
  In the list the loop returns, every frame after the first was compared with its
  predecessor in that list and found different enough.
\<close>

fun all_kept :: "('f \<Rightarrow> 'f \<Rightarrow> py_error + score) \<Rightarrow> real \<Rightarrow> 'f list \<Rightarrow> bool" where
  "all_kept sim threshold [] = True"
| "all_kept sim threshold [x] = True"
| "all_kept sim threshold (x # y # ys) =
     ((case sim x y of Inl e \<Rightarrow> False | Inr s \<Rightarrow> score_less s threshold)
      \<and> all_kept sim threshold (y # ys))"

text \<open>
  The library calls of \<^verbatim>\<open>save\<close> and \<^verbatim>\<open>optimize_colors\<close>: PIL's \<^verbatim>\<open>resize\<close> and
  \<^verbatim>\<open>quantize\<close>, and the size of the file that \<^verbatim>\<open>imageio.imwrite\<close> writes.
\<close>

record 'f imaging =
  resize :: "int \<times> int \<Rightarrow> 'f \<Rightarrow> 'f"
  quantize_palette :: "int \<Rightarrow> 'f list \<Rightarrow> 'f \<Rightarrow> 'f"
  quantize_colors :: "int \<Rightarrow> 'f \<Rightarrow> 'f"
  written_size :: "string \<Rightarrow> 'f list \<Rightarrow> real \<Rightarrow> nat"

text \<open>
  \<^verbatim>\<open>optimize_colors\<close>: with a global palette and more than one frame, the palette is built
  from \<^verbatim>\<open>min(5, len(frames))\<close> sampled frames and applied to every frame; otherwise each
  frame is quantized alone. Either way the result has one frame for each frame stored.
\<close>

definition optimize_colors :: "'f imaging \<Rightarrow> int \<Rightarrow> bool \<Rightarrow> 'f gif_builder \<Rightarrow> 'f list" where
  "optimize_colors lib num_colors use_global_palette self =
     (if use_global_palette \<and> length (frames self) > 1 then
        let sample_size = min 5 (length (frames self));
            sample_indices = map (\<lambda>i. (i * length (frames self)) div sample_size) [0..<sample_size];
            sample_frames = map (\<lambda>i. frames self ! i) sample_indices
        in map (quantize_palette lib num_colors sample_frames) (frames self)
      else map (quantize_colors lib num_colors) (frames self))"

text \<open>\<^verbatim>\<open>range(0, n, step)\<close> for a positive step.\<close>

definition range_step :: "nat \<Rightarrow> nat \<Rightarrow> nat list" where
  "range_step n step = filter (\<lambda>i. i mod step = 0) [0..<n]"

record gif_info =
  path :: string
  size_kb :: real
  size_mb :: real
  dimensions :: "int \<times> int"
  frame_count :: nat
  info_fps :: int
  duration_seconds :: real
  colors :: int

text \<open>
  \<^verbatim>\<open>save\<close>, without its printing. It returns the report and the builder as the call leaves
  it. \<^verbatim>\<open>1000 / self.fps\<close> raises \<^verbatim>\<open>ZeroDivisionError\<close> when the frame rate is 0.
\<close>

definition save ::
  "'f imaging \<Rightarrow> ('f \<Rightarrow> 'f \<Rightarrow> py_error + score) \<Rightarrow> string \<Rightarrow> int \<Rightarrow> bool \<Rightarrow> bool
    \<Rightarrow> 'f gif_builder \<Rightarrow> py_error + (gif_info \<times> 'f gif_builder)" where
  "save lib sim output_path num_colors optimize_for_emoji remove_duplicates self =
     (if frames self = [] then Inl ValueError
      else case (if remove_duplicates then deduplicate_frames sim 0.9995 self else Inr (0, self)) of
        Inl e \<Rightarrow> Inl e
      | Inr (removed, self1) \<Rightarrow>
          let self2 =
                (if optimize_for_emoji \<and> (width self1 > 128 \<or> height self1 > 128)
                 then self1\<lparr>width := 128, height := 128,
                             frames := map (resize lib (128, 128)) (frames self1)\<rparr>
                 else self1);
              num_colors' = (if optimize_for_emoji then min num_colors 48 else num_colors);
              self3 =
                (if optimize_for_emoji \<and> length (frames self2) > 12
                 then let keep_every = max 1 (length (frames self2) div 12)
                      in self2\<lparr>frames := map (\<lambda>i. frames self2 ! i)
                                              (range_step (length (frames self2)) keep_every)\<rparr>
                 else self2);
              optimized_frames = optimize_colors lib num_colors' True self3
          in if fps self3 = 0 then Inl ZeroDivisionError
             else
               let frame_duration = 1000 / real_of_int (fps self3);
                   file_size_kb = real (written_size lib output_path optimized_frames frame_duration) / 1024;
                   file_size_mb = file_size_kb / 1024
               in Inr (\<lparr>path = output_path, size_kb = file_size_kb, size_mb = file_size_mb,
                         dimensions = (width self3, height self3),
                         frame_count = length optimized_frames,
                         info_fps = fps self3,
                         duration_seconds = real (length optimized_frames) / real_of_int (fps self3),
                         colors = num_colors'\<rparr>, self3))"

text \<open>
  A builder for experiments: a 200 by 200 canvas at 15 frames per second with 20 frames,
  frame \<open>i\<close> holding the channel values \<open>[i, i, i]\<close>, and an imaging library that leaves
  every frame as it is and writes a file of 1024 bytes.
\<close>

definition plain_imaging :: "nat list imaging" where
  "plain_imaging =
     \<lparr>resize = (\<lambda>img_size f. f), quantize_palette = (\<lambda>n sample f. f),
      quantize_colors = (\<lambda>n f. f), written_size = (\<lambda>p fs d. 1024)\<rparr>"

definition twenty_frames :: "nat list gif_builder" where
  "twenty_frames =
     \<lparr>width = 200, height = 200, fps = 15, frames = map (\<lambda>i. [i, i, i]) [0..<20]\<rparr>"

section \<open>pptx/ooxml/scripts/validation/docx.py\<close>

text \<open>
  Each check of the validator reads the unpacked document, prints its findings and returns
  whether it passed. A check is a function from the state of the run (what has been printed
  so far, among other things) to its result and the next state. The ten checks and the
  paragraph comparison are the methods \<^verbatim>\<open>validate\<close> calls; those of the base class are
  not part of this file of the repository, so all of them are fields of the validator.
\<close>

record 's docx_validator =
  validate_xml :: "'s \<Rightarrow> bool \<times> 's"
  validate_namespaces :: "'s \<Rightarrow> bool \<times> 's"
  validate_unique_ids :: "'s \<Rightarrow> bool \<times> 's"
  validate_file_references :: "'s \<Rightarrow> bool \<times> 's"
  validate_content_types :: "'s \<Rightarrow> bool \<times> 's"
  validate_against_xsd :: "'s \<Rightarrow> bool \<times> 's"
  validate_whitespace_preservation :: "'s \<Rightarrow> bool \<times> 's"
  validate_deletions :: "'s \<Rightarrow> bool \<times> 's"
  validate_insertions :: "'s \<Rightarrow> bool \<times> 's"
  validate_all_relationship_ids :: "'s \<Rightarrow> bool \<times> 's"
  compare_paragraph_counts :: "'s \<Rightarrow> 's"

text \<open>
  One step of the body of \<^verbatim>\<open>validate\<close>:
  \<^verbatim>\<open>if not self.check(): all_valid = False\<close>.
\<close>

definition run_check :: "('s \<Rightarrow> bool \<times> 's) \<Rightarrow> bool \<times> 's \<Rightarrow> bool \<times> 's" where
  "run_check check acc =
     (case acc of (all_valid, s) \<Rightarrow>
        (case check s of (ok, s') \<Rightarrow> (if \<not> ok then False else all_valid, s')))"

definition validate :: "'s docx_validator \<Rightarrow> 's \<Rightarrow> bool \<times> 's" where
  "validate self s =
     (case validate_xml self s of (ok, s0) \<Rightarrow>
        if \<not> ok then (False, s0)
        else
          let acc = (True, s0);
              acc = run_check (validate_namespaces self) acc;
              acc = run_check (validate_unique_ids self) acc;
              acc = run_check (validate_file_references self) acc;
              acc = run_check (validate_content_types self) acc;
              acc = run_check (validate_against_xsd self) acc;
              acc = run_check (validate_whitespace_preservation self) acc;
              acc = run_check (validate_deletions self) acc;
              acc = run_check (validate_insertions self) acc;
              acc = run_check (validate_all_relationship_ids self) acc
          in (fst acc, compare_paragraph_counts self (snd acc)))"

text \<open>
  The specification's reading of tests 1 to 9: every check of a list runs, in order, each
  from the state its predecessor left, and the results are collected.
\<close>

fun run_all :: "('s \<Rightarrow> bool \<times> 's) list \<Rightarrow> 's \<Rightarrow> bool list \<times> 's" where
  "run_all [] s = ([], s)"
| "run_all (check # checks) s =
     (case check s of (ok, s') \<Rightarrow>
        (case run_all checks s' of (oks, s'') \<Rightarrow> (ok # oks, s'')))"

definition tests_1_to_9 :: "'s docx_validator \<Rightarrow> ('s \<Rightarrow> bool \<times> 's) list" where
  "tests_1_to_9 self =
     [validate_namespaces self, validate_unique_ids self, validate_file_references self,
      validate_content_types self, validate_against_xsd self,
      validate_whitespace_preservation self, validate_deletions self,
      validate_insertions self, validate_all_relationship_ids self]"

text \<open>
  A validator for experiments: the state is the list of the checks run so far, and check
  \<open>i\<close> passes when \<open>i\<close> is not in \<open>failing\<close>. The paragraph comparison is number 10.
\<close>

definition traced_check :: "nat set \<Rightarrow> nat \<Rightarrow> nat list \<Rightarrow> bool \<times> nat list" where
  "traced_check failing i trace = (i \<notin> failing, trace @ [i])"

definition traced_validator :: "nat set \<Rightarrow> nat list docx_validator" where
  "traced_validator failing =
     \<lparr>validate_xml = traced_check failing 0,
      validate_namespaces = traced_check failing 1,
      validate_unique_ids = traced_check failing 2,
      validate_file_references = traced_check failing 3,
      validate_content_types = traced_check failing 4,
      validate_against_xsd = traced_check failing 5,
      validate_whitespace_preservation = traced_check failing 6,
      validate_deletions = traced_check failing 7,
      validate_insertions = traced_check failing 8,
      validate_all_relationship_ids = traced_check failing 9,
      compare_paragraph_counts = (\<lambda>trace. trace @ [10])\<rparr>"

section \<open>pptx/scripts/thumbnail.py\<close>

text \<open>\<^verbatim>\<open>str(n)\<close> for a natural number: its decimal digits.\<close>

definition digit_char :: "nat \<Rightarrow> char" where
  "digit_char d = ''0123456789'' ! d"

function py_str :: "nat \<Rightarrow> string" where
  "py_str n = (if n < 10 then [digit_char n] else py_str (n div 10) @ [digit_char (n mod 10)])"
  by pat_completeness auto
termination
  by (relation "measure id") auto

declare py_str.simps [simp del]

text \<open>
  A grid is the list of its cells, in the order \<^verbatim>\<open>create_grid\<close> draws them: the label
  written above the thumbnail, the image pasted, and the row and column of the cell.
  Pixel positions, the font and the placeholder outlines are left out.
\<close>

record 'i cell =
  label :: string
  img :: 'i
  row :: int
  col :: int

text \<open>
  \<^verbatim>\<open>create_grid\<close>: \<^verbatim>\<open>image_paths[0]\<close> raises on an empty list, and
  \<^verbatim>\<open>(len(image_paths) + cols - 1) // cols\<close> raises when \<open>cols\<close> is 0. Python's \<^verbatim>\<open>//\<close> and
  \<^verbatim>\<open>%\<close> on integers are \<open>div\<close> and \<open>mod\<close> on \<open>int\<close>.
\<close>

definition create_grid :: "'i list \<Rightarrow> int \<Rightarrow> nat \<Rightarrow> py_error + 'i cell list" where
  "create_grid image_paths cols start_slide_num =
     (if image_paths = [] then Inl IndexError
      else if cols = 0 then Inl ZeroDivisionError
      else Inr (map (\<lambda>(i, img_path).
                  \<lparr>label = py_str (start_slide_num + i), img = img_path,
                   row = int i div cols, col = int i mod cols\<rparr>)
                (enumerate 0 image_paths)))"

text \<open>
  The name of a grid file: \<^verbatim>\<open>output_path\<close> itself, or
  \<^verbatim>\<open>{stem}-{chunk_idx + 1}{suffix}\<close> beside it.
\<close>

datatype grid_filename = Output_path | Numbered nat

text \<open>
  The loop of \<^verbatim>\<open>create_grids\<close> over \<^verbatim>\<open>enumerate(range(0, len(image_paths),
  max_images_per_grid))\<close>, from the chunk that starts at \<open>start_idx\<close>.
\<close>

function grids_from ::
  "'i list \<Rightarrow> int \<Rightarrow> nat \<Rightarrow> nat \<Rightarrow> nat \<Rightarrow> py_error + (grid_filename \<times> 'i cell list) list" where
  "grids_from image_paths cols max_images_per_grid chunk_idx start_idx =
     (if start_idx < length image_paths \<and> 0 < max_images_per_grid then
        let end_idx = min (start_idx + max_images_per_grid) (length image_paths);
            chunk_images = take (end_idx - start_idx) (drop start_idx image_paths)
        in case create_grid chunk_images cols start_idx of
             Inl e \<Rightarrow> Inl e
           | Inr grid \<Rightarrow>
               let grid_filename =
                     (if length image_paths \<le> max_images_per_grid then Output_path
                      else Numbered (chunk_idx + 1))
               in (case grids_from image_paths cols max_images_per_grid (chunk_idx + 1)
                          (start_idx + max_images_per_grid) of
                     Inl e \<Rightarrow> Inl e
                   | Inr grid_files \<Rightarrow> Inr ((grid_filename, grid) # grid_files))
      else Inr [])"
  by pat_completeness auto
termination
  by (relation "measure (\<lambda>(image_paths, cols, m, chunk_idx, start_idx). length image_paths - start_idx)")
     auto

declare grids_from.simps [simp del]

text \<open>
  \<^verbatim>\<open>create_grids\<close>: \<^verbatim>\<open>range\<close> raises \<^verbatim>\<open>ValueError\<close> on the step 0, that is when
  \<open>cols\<close> is 0 or -1. The product \<open>cols * (cols + 1)\<close> of two consecutive integers is never
  negative.
\<close>

definition create_grids ::
  "'i list \<Rightarrow> int \<Rightarrow> py_error + (grid_filename \<times> 'i cell list) list" where
  "create_grids image_paths cols =
     (let max_images_per_grid = cols * (cols + 1)
      in if max_images_per_grid = 0 then Inl ValueError
         else grids_from image_paths cols (nat max_images_per_grid) 0 0)"

section \<open>slack-gif-creator/core/validators.py\<close>

text \<open>
  What \<^verbatim>\<open>validate_gif\<close> reads from the outside, for one path: the outcome of
  \<^verbatim>\<open>gif_path.exists()\<close>, of \<^verbatim>\<open>gif_path.stat().st_size\<close> and of \<^verbatim>\<open>Image.open(gif_path)\<close>,
  each of which returns or raises. Of the image the function reads the size, the outcome
  of \<^verbatim>\<open>img.seek(k)\<close> for \<open>k = 0, 1, \<dots>\<close> (past the listed outcomes \<^verbatim>\<open>seek\<close> raises
  \<^verbatim>\<open>EOFError\<close>) and the \<^verbatim>\<open>duration\<close> entry of \<^verbatim>\<open>img.info\<close>, which is absent, a number,
  or a value on which the arithmetic raises.
\<close>

datatype seek_outcome = Seek_ok | Seek_raises py_error

datatype duration_entry = Millis real | Not_a_number

record gif_image =
  img_size :: "int \<times> int"
  seeks :: "seek_outcome list"
  info_duration :: "duration_entry option"

record gif_file =
  path_exists :: "py_error + bool"
  st_size :: "py_error + nat"
  opened :: "py_error + gif_image"

text \<open>
  The loop \<^verbatim>\<open>while True: img.seek(frame_count); frame_count += 1\<close> inside
  \<^verbatim>\<open>try ... except EOFError: pass\<close>: an \<^verbatim>\<open>EOFError\<close> ends the count, any other
  exception leaves the loop.
\<close>

fun count_frames :: "seek_outcome list \<Rightarrow> nat \<Rightarrow> py_error + nat" where
  "count_frames [] frame_count' = Inr frame_count'"
| "count_frames (Seek_ok # rest) frame_count' = count_frames rest (frame_count' + 1)"
| "count_frames (Seek_raises e # rest) frame_count' =
     (if e = EOFError then Inr frame_count' else Inl e)"

text \<open>
  The inner \<^verbatim>\<open>try\<close> with its bare \<^verbatim>\<open>except\<close>: the total duration and the frame rate,
  both \<^verbatim>\<open>None\<close> when the arithmetic raises.
\<close>

definition duration_and_fps :: "duration_entry option \<Rightarrow> nat \<Rightarrow> real option \<times> real option" where
  "duration_and_fps entry frame_count' =
     (case (case entry of None \<Rightarrow> Millis 100 | Some d \<Rightarrow> d) of
        Not_a_number \<Rightarrow> (None, None)
      | Millis duration_ms \<Rightarrow>
          let total_duration = (duration_ms * real frame_count') / 1000;
              fps' = (if total_duration > 0 then real frame_count' / total_duration else 0)
          in (Some total_duration, Some fps'))"

text \<open>
  The body of the outer \<^verbatim>\<open>try\<close>: width, height, frame count, total duration and frame
  rate, or the exception that the \<^verbatim>\<open>except Exception\<close> clause receives.
\<close>

definition read_gif ::
  "gif_file \<Rightarrow> py_error + (int \<times> int \<times> nat \<times> real option \<times> real option)" where
  "read_gif f =
     (case opened f of
        Inl e \<Rightarrow> Inl e
      | Inr im \<Rightarrow>
          (case count_frames (seeks im) 0 of
             Inl e \<Rightarrow> Inl e
           | Inr frame_count' \<Rightarrow>
               (case duration_and_fps (info_duration im) frame_count' of
                  (total_duration, fps') \<Rightarrow>
                    Inr (fst (img_size im), snd (img_size im), frame_count', total_duration, fps'))))"

text \<open>The dimension policy, the part of \<^verbatim>\<open>validate_gif\<close> after the outer \<^verbatim>\<open>try\<close>.\<close>

definition optimal_dims :: "int \<Rightarrow> int \<Rightarrow> bool" where
  "optimal_dims w h = (w = h \<and> h = 128)"

definition acceptable_dims :: "int \<Rightarrow> int \<Rightarrow> bool" where
  "acceptable_dims w h = (w = h \<and> 64 \<le> w \<and> w \<le> 128)"

definition dim_pass :: "bool \<Rightarrow> int \<Rightarrow> int \<Rightarrow> bool" where
  "dim_pass is_emoji w h =
     (if is_emoji then acceptable_dims w h
      else (min w h > 0 \<and> real_of_int (max w h) / real_of_int (min w h) \<le> 2)
           \<and> 320 \<le> min w h \<and> min w h \<le> 640)"

datatype gif_error = File_not_found string | Read_failed py_error

record gif_report =
  report_file :: string
  passes :: bool
  report_width :: int
  report_height :: int
  report_size_kb :: real
  report_size_mb :: real
  report_frame_count :: nat
  report_duration_seconds :: "real option"
  report_fps :: "real option"
  is_emoji :: bool
  optimal :: "bool option"

datatype gif_results = Error gif_error | Report gif_report

text \<open>
  \<^verbatim>\<open>validate_gif\<close>, without its printing (the verbose report formats numbers that are
  present and changes no result). \<open>Inl\<close> is an exception that leaves the function:
  \<^verbatim>\<open>gif_path.exists()\<close> and \<^verbatim>\<open>gif_path.stat()\<close> are called before the \<^verbatim>\<open>try\<close>, so what
  they raise is not caught.
\<close>

definition validate_gif ::
  "(string \<Rightarrow> gif_file) \<Rightarrow> string \<Rightarrow> bool \<Rightarrow> bool \<Rightarrow> py_error + (bool \<times> gif_results)" where
  "validate_gif files gif_path emoji verbose =
     (case path_exists (files gif_path) of
        Inl e \<Rightarrow> Inl e
      | Inr False \<Rightarrow> Inr (False, Error (File_not_found gif_path))
      | Inr True \<Rightarrow>
          (case st_size (files gif_path) of
             Inl e \<Rightarrow> Inl e
           | Inr size_bytes \<Rightarrow>
               let size_kb = real size_bytes / 1024;
                   size_mb = size_kb / 1024
               in case read_gif (files gif_path) of
                    Inl e \<Rightarrow> Inr (False, Error (Read_failed e))
                  | Inr (w, h, frame_count', total_duration, fps') \<Rightarrow>
                      Inr (dim_pass emoji w h,
                           Report \<lparr>report_file = gif_path, passes = dim_pass emoji w h,
                                   report_width = w, report_height = h,
                                   report_size_kb = size_kb, report_size_mb = size_mb,
                                   report_frame_count = frame_count',
                                   report_duration_seconds = total_duration,
                                   report_fps = fps', is_emoji = emoji,
                                   optimal = (if emoji then Some (optimal_dims w h) else None)\<rparr>)))"

text \<open>\<^verbatim>\<open>is_slack_ready\<close> returns the first component.\<close>

definition is_slack_ready ::
  "(string \<Rightarrow> gif_file) \<Rightarrow> string \<Rightarrow> bool \<Rightarrow> bool \<Rightarrow> py_error + bool" where
  "is_slack_ready files gif_path emoji verbose =
     map_sum id fst (validate_gif files gif_path emoji verbose)"




section \<open>pdf/scripts/extract\_form\_field\_info.py\<close>

text \<open>
  The objects the script reads through pypdf. An entry of a field's \<^verbatim>\<open>/_States_\<close> list is
  a name or an array of strings; indexing either raises \<^verbatim>\<open>IndexError\<close> out of range,
  and an index into a string gives the string of that one character.
\<close>

datatype pdf_state = Name string | Arr "string list"

fun index_state :: "pdf_state \<Rightarrow> nat \<Rightarrow> py_error + pdf_state" where
  "index_state (Name s) i = (if i < length s then Inr (Name [s ! i]) else Inl IndexError)"
| "index_state (Arr xs) i = (if i < length xs then Inr (Name (xs ! i)) else Inl IndexError)"

record pdf_field =
  field_FT :: "string option"
  field_States :: "pdf_state list option"
  field_Kids :: "string list option"

text \<open>
  A field dictionary on the parent chain of an annotation, with its \<^verbatim>\<open>/T\<close> and
  \<^verbatim>\<open>/Parent\<close>; an annotation has both and its \<^verbatim>\<open>/Rect\<close> and the keys of
  \<^verbatim>\<open>ann["/AP"]["/N"]\<close> (\<open>None\<close> when the lookup raises \<^verbatim>\<open>KeyError\<close>).
\<close>

datatype field_node = Field_node (node_T: "string option") (node_Parent: "field_node option")

record annotation =
  ann_T :: "string option"
  ann_Parent :: "field_node option"
  ann_Rect :: "real list option"
  ann_AP_N :: "string list option"

record pdf_reader =
  get_fields :: "(string \<times> pdf_field) list option"
  pages :: "annotation list list"

text \<open>
  The descriptor the script builds, a Python dictionary: a key that may be missing is an
  option. The value of \<^verbatim>\<open>rect\<close> is whatever \<^verbatim>\<open>ann.get('/Rect')\<close> returned, so it can
  be present and \<^verbatim>\<open>None\<close>. A choice option is the pair of its value and text, a radio
  option the pair of its value and rect.
\<close>

datatype field_type = Text | Checkbox | Radio_group | Choice | Unknown "string option"

record field_info =
  field_id :: string
  ftype :: field_type
  checked_value :: "pdf_state option"
  unchecked_value :: "pdf_state option"
  choice_options :: "(pdf_state \<times> pdf_state) list option"
  page :: "nat option"
  rect :: "real list option option"
  radio_options :: "(string \<times> real list option) list option"

datatype message = Unexpected_states string | No_location string

text \<open>\<^verbatim>\<open>".".join(parts)\<close>\<close>

fun join_dot :: "string list \<Rightarrow> string" where
  "join_dot [] = []"
| "join_dot [x] = x"
| "join_dot (x # y # ys) = x @ ''.'' @ join_dot (y # ys)"

text \<open>
  \<^verbatim>\<open>get_full_annotation_field_id\<close>: the names met on the way up the parent chain, an
  empty name being skipped, joined from the root down.
\<close>

fun node_components :: "field_node \<Rightarrow> string list" where
  "node_components (Field_node t parent) =
     (case t of None \<Rightarrow> [] | Some field_name \<Rightarrow> if field_name \<noteq> [] then [field_name] else [])
     @ (case parent of None \<Rightarrow> [] | Some p \<Rightarrow> node_components p)"

definition get_full_annotation_field_id :: "annotation \<Rightarrow> string option" where
  "get_full_annotation_field_id ann =
     (let components = node_components (Field_node (ann_T ann) (ann_Parent ann))
      in if components \<noteq> [] then Some (join_dot (rev components)) else None)"

definition new_field_dict :: "string \<Rightarrow> field_type \<Rightarrow> field_info" where
  "new_field_dict fid t =
     \<lparr>field_id = fid, ftype = t, checked_value = None, unchecked_value = None,
      choice_options = None, page = None, rect = None, radio_options = None\<rparr>"

text \<open>The list comprehension of the \<^verbatim>\<open>/Ch\<close> branch; it raises when an index does.\<close>

fun choice_pairs :: "pdf_state list \<Rightarrow> py_error + (pdf_state \<times> pdf_state) list" where
  "choice_pairs [] = Inr []"
| "choice_pairs (state # states) =
     (case index_state state 0 of
        Inl e \<Rightarrow> Inl e
      | Inr v \<Rightarrow>
          (case index_state state 1 of
             Inl e \<Rightarrow> Inl e
           | Inr t \<Rightarrow>
               (case choice_pairs states of
                  Inl e \<Rightarrow> Inl e
                | Inr rest \<Rightarrow> Inr ((v, t) # rest))))"

text \<open>\<^verbatim>\<open>make_field_dict\<close> returns the descriptor and what it printed.\<close>

definition make_field_dict :: "pdf_field \<Rightarrow> string \<Rightarrow> py_error + (field_info \<times> message list)" where
  "make_field_dict field fid =
     (let ft = field_FT field;
          states = (case field_States field of None \<Rightarrow> [] | Some s \<Rightarrow> s)
      in if ft = Some ''/Tx'' then Inr (new_field_dict fid Text, [])
         else if ft = Some ''/Btn'' then
           (if length states = 2 then
              (if Name ''/Off'' \<in> set states then
                 Inr ((new_field_dict fid Checkbox)
                        \<lparr>checked_value :=
                           Some (if states ! 0 \<noteq> Name ''/Off'' then states ! 0 else states ! 1),
                         unchecked_value := Some (Name ''/Off'')\<rparr>, [])
               else
                 Inr ((new_field_dict fid Checkbox)
                        \<lparr>checked_value := Some (states ! 0),
                         unchecked_value := Some (states ! 1)\<rparr>, [Unexpected_states fid]))
            else Inr (new_field_dict fid Checkbox, []))
         else if ft = Some ''/Ch'' then
           (case choice_pairs states of
              Inl e \<Rightarrow> Inl e
            | Inr opts \<Rightarrow> Inr ((new_field_dict fid Choice)\<lparr>choice_options := Some opts\<rparr>, []))
         else Inr (new_field_dict fid (Unknown ft), []))"

text \<open>
  The state of \<^verbatim>\<open>get_field_info\<close>: the two dictionaries, in insertion order, the set of
  names that may be radio groups, and the lines printed.
\<close>

record extractor =
  field_info_by_id :: "(string \<times> field_info) list"
  possible_radio_names :: "string set"
  radio_fields_by_id :: "(string \<times> field_info) list"
  printed :: "message list"

definition truthy_list :: "'a list option \<Rightarrow> bool" where
  "truthy_list v = (case v of None \<Rightarrow> False | Some xs \<Rightarrow> xs \<noteq> [])"

text \<open>The body of the first loop, over \<^verbatim>\<open>fields.items()\<close>.\<close>

definition add_field :: "string \<times> pdf_field \<Rightarrow> extractor \<Rightarrow> py_error + extractor" where
  "add_field item st =
     (case item of (fid, field) \<Rightarrow>
        if truthy_list (field_Kids field) then
          (if field_FT field = Some ''/Btn''
           then Inr (st\<lparr>possible_radio_names := insert fid (possible_radio_names st)\<rparr>)
           else Inr st)
        else
          (case make_field_dict field fid of
             Inl e \<Rightarrow> Inl e
           | Inr (field_dict, out) \<Rightarrow>
               Inr (st\<lparr>field_info_by_id := AList.update fid field_dict (field_info_by_id st),
                       printed := printed st @ out\<rparr>)))"

fun add_fields :: "(string \<times> pdf_field) list \<Rightarrow> extractor \<Rightarrow> py_error + extractor" where
  "add_fields [] st = Inr st"
| "add_fields (item # items) st =
     (case add_field item st of Inl e \<Rightarrow> Inl e | Inr st' \<Rightarrow> add_fields items st')"

text \<open>The body of the second loop, for one annotation of the page with index \<open>page_index\<close>.\<close>

definition add_annotation :: "nat \<Rightarrow> annotation \<Rightarrow> extractor \<Rightarrow> extractor" where
  "add_annotation page_index ann st =
     (case get_full_annotation_field_id ann of
        None \<Rightarrow> st
      | Some fid \<Rightarrow>
          (case map_of (field_info_by_id st) fid of
             Some info \<Rightarrow>
               st\<lparr>field_info_by_id :=
                    AList.update fid (info\<lparr>page := Some (page_index + 1), rect := Some (ann_Rect ann)\<rparr>)
                      (field_info_by_id st)\<rparr>
           | None \<Rightarrow>
               if fid \<in> possible_radio_names st then
                 (case ann_AP_N ann of
                    None \<Rightarrow> st
                  | Some appearance_states \<Rightarrow>
                      let on_values = filter (\<lambda>v. v \<noteq> ''/Off'') appearance_states
                      in if length on_values = 1 then
                           let group =
                                 (case map_of (radio_fields_by_id st) fid of
                                    Some g \<Rightarrow> g
                                  | None \<Rightarrow>
                                      (new_field_dict fid Radio_group)
                                        \<lparr>page := Some (page_index + 1), radio_options := Some []\<rparr>);
                               options = (case radio_options group of None \<Rightarrow> [] | Some os \<Rightarrow> os)
                           in st\<lparr>radio_fields_by_id :=
                                   AList.update fid
                                     (group\<lparr>radio_options := Some (options @ [(on_values ! 0, ann_Rect ann)])\<rparr>)
                                     (radio_fields_by_id st)\<rparr>
                         else st)
               else st))"

definition add_page :: "nat \<times> annotation list \<Rightarrow> extractor \<Rightarrow> extractor" where
  "add_page p st = (case p of (page_index, annotations) \<Rightarrow> fold (add_annotation page_index) annotations st)"

text \<open>
  The key of the final sort, \<^verbatim>\<open>[f.get("page"), [-rect[1], rect[0]]]\<close>. A missing or empty
  rect counts as \<^verbatim>\<open>[0, 0, 0, 0]\<close>, a rect of one number raises \<^verbatim>\<open>IndexError\<close>, and so does
  a radio group without options. Lists compare lexicographically, as the triples do here.
  Every descriptor that \<^verbatim>\<open>get_field_info\<close> sorts has a page; for one without, the key
  would hold \<^verbatim>\<open>None\<close>, whose comparison with a number raises \<^verbatim>\<open>TypeError\<close>.
\<close>

definition sort_key_of :: "field_info \<Rightarrow> py_error + (nat \<times> real \<times> real)" where
  "sort_key_of f =
     (case (case radio_options f of
              Some [] \<Rightarrow> Inl IndexError
            | Some (opt # opts) \<Rightarrow> Inr (snd opt)
            | None \<Rightarrow> Inr (case rect f of None \<Rightarrow> None | Some r \<Rightarrow> r)) of
        Inl e \<Rightarrow> Inl e
      | Inr r \<Rightarrow>
          let rect' = (case r of None \<Rightarrow> [0, 0, 0, 0] | Some [] \<Rightarrow> [0, 0, 0, 0] | Some xs \<Rightarrow> xs)
          in if length rect' < 2 then Inl IndexError
             else (case page f of
                     None \<Rightarrow> Inl TypeError
                   | Some p \<Rightarrow> Inr (p, - (rect' ! 1), rect' ! 0)))"

text \<open>
  \<^verbatim>\<open>list.sort(key=...)\<close> computes the key of every element first, raising when one
  raises, and then sorts stably by the keys.
\<close>

fun all_keys :: "field_info list \<Rightarrow> py_error + (nat \<times> real \<times> real) list" where
  "all_keys [] = Inr []"
| "all_keys (f # fs) =
     (case sort_key_of f of
        Inl e \<Rightarrow> Inl e
      | Inr k \<Rightarrow> (case all_keys fs of Inl e \<Rightarrow> Inl e | Inr ks \<Rightarrow> Inr (k # ks)))"

definition sort_fields :: "field_info list \<Rightarrow> py_error + field_info list" where
  "sort_fields fs =
     (case all_keys fs of
        Inl e \<Rightarrow> Inl e
      | Inr ks \<Rightarrow> Inr (map snd (sort_key fst (zip ks fs))))"

text \<open>
  \<^verbatim>\<open>get_field_info\<close> up to the sort: the located fields followed by the radio groups, and
  the lines printed. \<^verbatim>\<open>reader.get_fields()\<close> is \<^verbatim>\<open>None\<close> for a PDF without form, and
  \<^verbatim>\<open>None.items()\<close> raises.
\<close>

definition located_fields :: "pdf_reader \<Rightarrow> py_error + (field_info list \<times> message list)" where
  "located_fields reader =
     (case get_fields reader of
        None \<Rightarrow> Inl AttributeError
      | Some form_fields \<Rightarrow>
          (case add_fields form_fields
                  \<lparr>field_info_by_id = [], possible_radio_names = {}, radio_fields_by_id = [],
                   printed = []\<rparr> of
             Inl e \<Rightarrow> Inl e
           | Inr st1 \<Rightarrow>
               let st2 = fold add_page (enumerate 0 (pages reader)) st1;
                   infos = map snd (field_info_by_id st2);
                   fields_with_location = filter (\<lambda>f. page f \<noteq> None) infos;
                   ignored = map (\<lambda>f. No_location (field_id f)) (filter (\<lambda>f. page f = None) infos)
               in Inr (fields_with_location @ map snd (radio_fields_by_id st2),
                       printed st2 @ ignored)))"

definition get_field_info :: "pdf_reader \<Rightarrow> py_error + (field_info list \<times> message list)" where
  "get_field_info reader =
     (case located_fields reader of
        Inl e \<Rightarrow> Inl e
      | Inr (fs, out) \<Rightarrow>
          (case sort_fields fs of Inl e \<Rightarrow> Inl e | Inr sorted_fields \<Rightarrow> Inr (sorted_fields, out)))"

text \<open>
  Readers for experiments: text fields without children, each with one widget annotation
  that carries the field's name, on the first page.
\<close>

definition text_field :: pdf_field where
  "text_field = \<lparr>field_FT = Some ''/Tx'', field_States = None, field_Kids = None\<rparr>"

definition widget :: "string \<Rightarrow> real list option \<Rightarrow> annotation" where
  "widget name r = \<lparr>ann_T = Some name, ann_Parent = None, ann_Rect = r, ann_AP_N = None\<rparr>"

definition three_fields_reader :: pdf_reader where
  "three_fields_reader =
     \<lparr>get_fields = Some [(''top_left'', text_field), (''bottom'', text_field),
                         (''top_right'', text_field)],
      pages = [[widget ''top_left'' (Some [0, 700, 40, 720]),
                widget ''bottom'' (Some [0, 100, 40, 120]),
                widget ''top_right'' (Some [50, 700, 90, 720])]]\<rparr>"

definition no_rect_reader :: pdf_reader where
  "no_rect_reader =
     \<lparr>get_fields = Some [(''name'', text_field)],
      pages = [[widget ''name'' None]]\<rparr>"

text \<open>
  What holds of the two dictionaries throughout \<^verbatim>\<open>get_field_info\<close>, given the set \<open>seen\<close> of
  the annotations read so far, each with the index of its page. Before the pages are read
  no field has a location. Afterwards a field that has a page is no radio group, and its
  page and \<^verbatim>\<open>rect\<close> are those of an annotation read under its name; a radio group has the
  page of an annotation read under its name and at least one option, each option the
  on-state and \<^verbatim>\<open>/Rect\<close> of such an annotation, and no field has its name.
\<close>

definition fresh_fields :: "(string \<times> field_info) list \<Rightarrow> bool" where
  "fresh_fields by_id =
     (distinct (map fst by_id)
      \<and> (\<forall>k d. map_of by_id k = Some d \<longrightarrow>
             field_id d = k \<and> page d = None \<and> rect d = None \<and> radio_options d = None))"

definition placed_by :: "(nat \<times> annotation) set \<Rightarrow> string \<Rightarrow> field_info \<Rightarrow> bool" where
  "placed_by seen k d =
     (\<exists>i ann. (i, ann) \<in> seen \<and> get_full_annotation_field_id ann = Some k
        \<and> page d = Some (i + 1) \<and> rect d = Some (ann_Rect ann))"

definition paged_by :: "(nat \<times> annotation) set \<Rightarrow> string \<Rightarrow> field_info \<Rightarrow> bool" where
  "paged_by seen k g =
     (\<exists>i ann. (i, ann) \<in> seen \<and> get_full_annotation_field_id ann = Some k
        \<and> page g = Some (i + 1))"

definition option_of :: "(nat \<times> annotation) set \<Rightarrow> string \<Rightarrow> string \<times> real list option \<Rightarrow> bool" where
  "option_of seen k opt =
     (\<exists>i ann states. (i, ann) \<in> seen \<and> get_full_annotation_field_id ann = Some k
        \<and> snd opt = ann_Rect ann \<and> ann_AP_N ann = Some states
        \<and> fst opt \<in> set states \<and> fst opt \<noteq> ''/Off'')"

definition fields_inv :: "(nat \<times> annotation) set \<Rightarrow> (string \<times> field_info) list \<Rightarrow> bool" where
  "fields_inv seen by_id =
     (distinct (map fst by_id)
      \<and> (\<forall>k d. map_of by_id k = Some d \<longrightarrow>
             field_id d = k \<and> radio_options d = None
             \<and> (page d \<noteq> None \<longrightarrow> placed_by seen k d)))"

definition radio_inv ::
  "(nat \<times> annotation) set \<Rightarrow> (string \<times> field_info) list \<Rightarrow> (string \<times> field_info) list
    \<Rightarrow> bool" where
  "radio_inv seen by_id radio =
     (distinct (map fst radio)
      \<and> (\<forall>k g. map_of radio k = Some g \<longrightarrow>
             field_id g = k \<and> paged_by seen k g
             \<and> (\<exists>options. radio_options g = Some options \<and> options \<noteq> []
                    \<and> list_all (option_of seen k) options)
             \<and> map_of by_id k = None))"

definition located_inv :: "(nat \<times> annotation) set \<Rightarrow> extractor \<Rightarrow> bool" where
  "located_inv seen st =
     (fields_inv seen (field_info_by_id st)
      \<and> radio_inv seen (field_info_by_id st) (radio_fields_by_id st))"

definition unlocated_reader :: pdf_reader where
  "unlocated_reader =
     \<lparr>get_fields = Some [(''lost'', text_field), (''seen'', text_field)],
      pages = [[], [widget ''seen'' (Some [10, 20, 30, 40])]]\<rparr>"

text \<open>
  A reader with one radio group: a button field with children, and two annotations under
  its name on the first page, each with \<^verbatim>\<open>/Off\<close> and one on-state.
\<close>

definition radio_widget :: "string \<Rightarrow> string \<Rightarrow> real list option \<Rightarrow> annotation" where
  "radio_widget group_name on_state r =
     \<lparr>ann_T = None, ann_Parent = Some (Field_node (Some group_name) None), ann_Rect = r,
      ann_AP_N = Some [on_state, ''/Off'']\<rparr>"

definition radio_reader :: pdf_reader where
  "radio_reader =
     \<lparr>get_fields =
        Some [(''choice'',
               \<lparr>field_FT = Some ''/Btn'', field_States = None,
                field_Kids = Some [''first'', ''second'']\<rparr>)],
      pages = [[radio_widget ''choice'' ''/A'' (Some [10, 500, 20, 510]),
                radio_widget ''choice'' ''/B'' (Some [10, 480, 20, 490])]]\<rparr>"

section \<open>pptx/scripts/replace.py\<close>

text \<open>
  A Python string is the list of its code points: \<^verbatim>\<open>len\<close> and slices count code points,
  and strings compare lexicographically by code point. \<open>py\<close> turns an ASCII literal into
  such a string.
\<close>

type_synonym pystr = "nat list"

definition py :: "string \<Rightarrow> pystr" where
  "py s = map of_char s"

definition startswith :: "pystr \<Rightarrow> pystr \<Rightarrow> bool" where
  "startswith s prefix = (take (length prefix) s = prefix)"

text \<open>\<^verbatim>\<open>s.split(sep)\<close> for a separator of one character.\<close>

fun split_on :: "nat \<Rightarrow> pystr \<Rightarrow> pystr list" where
  "split_on sep [] = [[]]"
| "split_on sep (c # cs) =
     (if c = sep then [] # split_on sep cs
      else (case split_on sep cs of [] \<Rightarrow> [[c]] | w # ws \<Rightarrow> (c # w) # ws))"

text \<open>
  The inventory of \<^verbatim>\<open>inventory.py\<close>, as far as \<^verbatim>\<open>replace.py\<close> reads it: of a paragraph its
  text; of a shape the reference to the live shape (\<open>None\<close> when there is none), the
  paragraphs, the measured bottom overflow in inches and the warnings. A dictionary is the
  list of its items in insertion order. Inches are real numbers here, where Python has
  floats.
\<close>

record paragraph_data =
  para_text :: pystr

record shape_data =
  shape :: "nat option"
  paragraphs :: "paragraph_data list"
  frame_overflow_bottom :: "real option"
  warnings :: "pystr list"

type_synonym inventory_data = "(pystr \<times> (pystr \<times> shape_data) list) list"

text \<open>
  The replacement JSON: for a slide key and a shape key, the list under
  \<^verbatim>\<open>"paragraphs"\<close>, or \<open>None\<close> when the shape's entry has no such key. The paragraph
  dictionaries themselves are of a type \<open>'p\<close> that the functions below do not look into.
\<close>

type_synonym 'p replacements = "(pystr \<times> (pystr \<times> 'p list option) list) list"

text \<open>
  The presentation: the number of its slides and, for each live shape, the paragraphs of
  its text frame. A cleared frame has no paragraph written to it.
\<close>

record 'p presentation =
  n_slides :: nat
  text_frames :: "nat \<Rightarrow> 'p list"

text \<open>
  What \<^verbatim>\<open>apply_replacements\<close> calls and this file of the repository does not define:
  \<^verbatim>\<open>extract_text_inventory\<close> of \<^verbatim>\<open>inventory.py\<close>, Python's \<^verbatim>\<open>int\<close> on a string (\<open>None\<close>
  when it raises \<^verbatim>\<open>ValueError\<close>), and the exception, if any, that python-pptx or the
  colour parsing raises while \<^verbatim>\<open>apply_paragraph_properties\<close> writes one paragraph.
\<close>

record 'p pptx_lib =
  extract_text_inventory :: "'p presentation \<Rightarrow> inventory_data"
  py_int :: "pystr \<Rightarrow> int option"
  paragraph_error :: "'p \<Rightarrow> py_error option"

text \<open>
  \<^verbatim>\<open>detect_frame_overflow\<close>: the body of the inner loop stores the overflow of a shape
  that has one, creating the dictionary of the slide first when it is missing.
\<close>

definition record_overflow ::
  "pystr \<Rightarrow> pystr \<times> shape_data \<Rightarrow> (pystr \<times> (pystr \<times> real) list) list
    \<Rightarrow> (pystr \<times> (pystr \<times> real) list) list" where
  "record_overflow slide_key item overflow_map =
     (case item of (shape_key, shape_data) \<Rightarrow>
        (case frame_overflow_bottom shape_data of
           None \<Rightarrow> overflow_map
         | Some v \<Rightarrow>
             AList.update slide_key
               (AList.update shape_key v
                  (case map_of overflow_map slide_key of None \<Rightarrow> [] | Some m \<Rightarrow> m))
               overflow_map))"

definition detect_frame_overflow :: "inventory_data \<Rightarrow> (pystr \<times> (pystr \<times> real) list) list" where
  "detect_frame_overflow inventory =
     fold (\<lambda>(slide_key, shapes_dict) overflow_map.
             fold (record_overflow slide_key) shapes_dict overflow_map)
          inventory []"

datatype validation_error =
    Slide_not_found pystr
  | Shape_not_found pystr pystr "pystr list"

text \<open>
  The entry of \<^verbatim>\<open>unused_with_content\<close> for one shape of the inventory: the key followed by
  a preview of the first paragraph's text, or the key alone when there is no paragraph or
  the text is empty.
\<close>

definition unused_entry :: "pystr \<Rightarrow> shape_data \<Rightarrow> pystr" where
  "unused_entry k shape_data =
     (case paragraphs shape_data of
        [] \<Rightarrow> k
      | p # _ \<Rightarrow>
          if para_text p \<noteq> [] then
            let first_text = take 50 (para_text p);
                first_text = (if length (para_text p) > 50 then first_text @ py ''...'' else first_text)
            in k @ py '' ('' @ [39] @ first_text @ [39] @ py '')''
          else k)"

definition unused_with_content ::
  "(pystr \<times> shape_data) list \<Rightarrow> (pystr \<times> 'a) list \<Rightarrow> pystr list" where
  "unused_with_content inventory_shapes shapes_data =
     fold (\<lambda>(k, shape_data) unused.
             if map_of shapes_data k = None then unused @ [unused_entry k shape_data] else unused)
          inventory_shapes []"

text \<open>
  \<^verbatim>\<open>validate_replacements\<close>. The error for a shape carries the sorted list that the message
  joins with commas.
\<close>

definition check_shape_key ::
  "(pystr \<times> shape_data) list \<Rightarrow> pystr \<Rightarrow> (pystr \<times> 'a) list \<Rightarrow> pystr
    \<Rightarrow> validation_error list \<Rightarrow> validation_error list" where
  "check_shape_key inventory_shapes slide_key shapes_data shape_key errors =
     (if map_of inventory_shapes shape_key = None
      then errors @ [Shape_not_found shape_key slide_key
                       (sort (unused_with_content inventory_shapes shapes_data))]
      else errors)"

definition check_slide_key ::
  "inventory_data \<Rightarrow> pystr \<times> (pystr \<times> 'a) list \<Rightarrow> validation_error list
    \<Rightarrow> validation_error list" where
  "check_slide_key inventory item errors =
     (case item of (slide_key, shapes_data) \<Rightarrow>
        if \<not> startswith slide_key (py ''slide-'') then errors
        else (case map_of inventory slide_key of
                None \<Rightarrow> errors @ [Slide_not_found slide_key]
              | Some inventory_shapes \<Rightarrow>
                  fold (check_shape_key inventory_shapes slide_key shapes_data)
                    (map fst shapes_data) errors))"

definition validate_replacements ::
  "inventory_data \<Rightarrow> (pystr \<times> (pystr \<times> 'a) list) list \<Rightarrow> validation_error list" where
  "validate_replacements inventory replacements = fold (check_slide_key inventory) replacements []"

text \<open>
  The statistics \<^verbatim>\<open>apply_replacements\<close> keeps, and the loops that edit the presentation.
  Each returns the presentation and the statistics as they are when it ends, and the
  exception that ended it, if one did.
\<close>

record edit_stats =
  shapes_processed :: nat
  shapes_cleared :: nat
  shapes_replaced :: nat

fun add_paragraphs ::
  "'p pptx_lib \<Rightarrow> nat \<Rightarrow> 'p list \<Rightarrow> 'p presentation \<Rightarrow> py_error option \<times> 'p presentation" where
  "add_paragraphs lib ref [] prs = (None, prs)"
| "add_paragraphs lib ref (para_data # rest) prs =
     (case paragraph_error lib para_data of
        Some e \<Rightarrow> (Some e, prs)
      | None \<Rightarrow>
          add_paragraphs lib ref rest
            (prs\<lparr>text_frames := (text_frames prs)(ref := text_frames prs ref @ [para_data])\<rparr>))"

definition replace_shape ::
  "'p pptx_lib \<Rightarrow> 'p replacements \<Rightarrow> pystr \<Rightarrow> pystr \<times> shape_data
    \<Rightarrow> 'p presentation \<times> edit_stats \<Rightarrow> py_error option \<times> 'p presentation \<times> edit_stats" where
  "replace_shape lib replacements slide_key item state =
     (case item of (shape_key, shape_data) \<Rightarrow>
      case state of (prs, stats) \<Rightarrow>
        let stats = stats\<lparr>shapes_processed := shapes_processed stats + 1\<rparr>
        in case shape shape_data of
             None \<Rightarrow> (None, prs, stats)
           | Some ref \<Rightarrow>
               let prs = prs\<lparr>text_frames := (text_frames prs)(ref := [])\<rparr>;
                   stats = stats\<lparr>shapes_cleared := shapes_cleared stats + 1\<rparr>;
                   replacement_shape_data =
                     (case map_of replacements slide_key of
                        None \<Rightarrow> None
                      | Some shapes \<Rightarrow> (case map_of shapes shape_key of None \<Rightarrow> None | Some d \<Rightarrow> d))
               in case replacement_shape_data of
                    None \<Rightarrow> (None, prs, stats)
                  | Some new_paragraphs \<Rightarrow>
                      let stats = stats\<lparr>shapes_replaced := shapes_replaced stats + 1\<rparr>
                      in case add_paragraphs lib ref new_paragraphs prs of
                           (e, prs) \<Rightarrow> (e, prs, stats))"

fun replace_shapes ::
  "'p pptx_lib \<Rightarrow> 'p replacements \<Rightarrow> pystr \<Rightarrow> (pystr \<times> shape_data) list
    \<Rightarrow> 'p presentation \<times> edit_stats \<Rightarrow> py_error option \<times> 'p presentation \<times> edit_stats" where
  "replace_shapes lib replacements slide_key [] state = (None, state)"
| "replace_shapes lib replacements slide_key (item # items) state =
     (case replace_shape lib replacements slide_key item state of
        (Some e, state') \<Rightarrow> (Some e, state')
      | (None, state') \<Rightarrow> replace_shapes lib replacements slide_key items state')"

text \<open>
  The body of the outer loop. \<^verbatim>\<open>slide_key.split("-")[1]\<close> exists for a key that starts
  with \<^verbatim>\<open>slide-\<close>; \<^verbatim>\<open>int\<close> of it may raise. A slide index beyond the slides is skipped
  with a warning.
\<close>

definition replace_slide ::
  "'p pptx_lib \<Rightarrow> 'p replacements \<Rightarrow> pystr \<times> (pystr \<times> shape_data) list
    \<Rightarrow> 'p presentation \<times> edit_stats \<Rightarrow> py_error option \<times> 'p presentation \<times> edit_stats" where
  "replace_slide lib replacements item state =
     (case item of (slide_key, shapes_dict) \<Rightarrow>
        if \<not> startswith slide_key (py ''slide-'') then (None, state)
        else (case split_on 45 slide_key of
                _ # index_text # _ \<Rightarrow>
                  (case py_int lib index_text of
                     None \<Rightarrow> (Some ValueError, state)
                   | Some slide_index \<Rightarrow>
                       if slide_index \<ge> int (n_slides (fst state)) then (None, state)
                       else replace_shapes lib replacements slide_key shapes_dict state)
              | _ \<Rightarrow> (Some IndexError, state)))"

fun replace_slides ::
  "'p pptx_lib \<Rightarrow> 'p replacements \<Rightarrow> inventory_data
    \<Rightarrow> 'p presentation \<times> edit_stats \<Rightarrow> py_error option \<times> 'p presentation \<times> edit_stats" where
  "replace_slides lib replacements [] state = (None, state)"
| "replace_slides lib replacements (item # items) state =
     (case replace_slide lib replacements item state of
        (Some e, state') \<Rightarrow> (Some e, state')
      | (None, state') \<Rightarrow> replace_slides lib replacements items state')"

text \<open>
  The check after the edits: an error for every shape of the new overflow map whose
  overflow exceeds the old one, or 0.0 when the old map has none, by more than 0.01; and
  the warnings of the new inventory, each with its slide and shape key.
\<close>

datatype overflow_error = Overflow_worse pystr pystr real real real

definition original_of :: "(pystr \<times> (pystr \<times> real) list) list \<Rightarrow> pystr \<Rightarrow> pystr \<Rightarrow> real" where
  "original_of original_overflow slide_key shape_key =
     (case map_of original_overflow slide_key of
        None \<Rightarrow> 0
      | Some m \<Rightarrow> (case map_of m shape_key of None \<Rightarrow> 0 | Some v \<Rightarrow> v))"

definition overflow_errors_of ::
  "(pystr \<times> (pystr \<times> real) list) list \<Rightarrow> (pystr \<times> (pystr \<times> real) list) list
    \<Rightarrow> overflow_error list" where
  "overflow_errors_of original_overflow updated_overflow =
     concat (map (\<lambda>(slide_key, shape_overflows).
       concat (map (\<lambda>(shape_key, new_overflow).
         let original = original_of original_overflow slide_key shape_key
         in if new_overflow > original + 0.01
            then [Overflow_worse slide_key shape_key (new_overflow - original) original new_overflow]
            else [])
         shape_overflows))
       updated_overflow)"

definition warnings_of :: "inventory_data \<Rightarrow> (pystr \<times> pystr \<times> pystr) list" where
  "warnings_of updated_inventory =
     concat (map (\<lambda>(slide_key, shapes_dict).
       concat (map (\<lambda>(shape_key, shape_data).
         map (\<lambda>warning. (slide_key, shape_key, warning)) (warnings shape_data))
         shapes_dict))
       updated_inventory)"

text \<open>
  The outcome of \<^verbatim>\<open>apply_replacements\<close>: the exception that left it, if any, the
  presentation in memory at that moment or at the end, the presentation saved to the output
  path (\<open>None\<close> when \<^verbatim>\<open>prs.save(output_file)\<close> was not reached) and the statistics. The
  arguments are the presentation as loaded and the replacement JSON as parsed.
\<close>

datatype apply_error =
    Invalid_replacements "validation_error list"
  | Problems_detected "overflow_error list" "(pystr \<times> pystr \<times> pystr) list"
  | Python_error py_error

record 'p outcome =
  raised :: "apply_error option"
  in_memory :: "'p presentation"
  output_file :: "'p presentation option"
  counted :: edit_stats

definition apply_replacements :: "'p pptx_lib \<Rightarrow> 'p presentation \<Rightarrow> 'p replacements \<Rightarrow> 'p outcome" where
  "apply_replacements lib prs replacements =
     (let inventory = extract_text_inventory lib prs;
          original_overflow = detect_frame_overflow inventory;
          errors = validate_replacements inventory replacements;
          stats0 = \<lparr>shapes_processed = 0, shapes_cleared = 0, shapes_replaced = 0\<rparr>
      in if errors \<noteq> [] then
           \<lparr>raised = Some (Invalid_replacements errors), in_memory = prs, output_file = None,
            counted = stats0\<rparr>
         else
           (case replace_slides lib replacements inventory (prs, stats0) of
              (Some e, prs', stats) \<Rightarrow>
                \<lparr>raised = Some (Python_error e), in_memory = prs', output_file = None,
                 counted = stats\<rparr>
            | (None, prs', stats) \<Rightarrow>
                let updated_inventory = extract_text_inventory lib prs';
                    updated_overflow = detect_frame_overflow updated_inventory;
                    overflow_errors = overflow_errors_of original_overflow updated_overflow;
                    found_warnings = warnings_of updated_inventory
                in if overflow_errors \<noteq> [] \<or> found_warnings \<noteq> [] then
                     \<lparr>raised = Some (Problems_detected overflow_errors found_warnings),
                      in_memory = prs', output_file = None, counted = stats\<rparr>
                   else
                     \<lparr>raised = None, in_memory = prs', output_file = Some prs',
                      counted = stats\<rparr>))"

text \<open>
  The specification's reading of an overflow map: the measured overflow of the shape under
  a slide key and a shape key of an inventory, if it has one. An inventory is a dictionary
  of dictionaries, so no key occurs twice.
\<close>

definition inventory_overflow :: "inventory_data \<Rightarrow> pystr \<Rightarrow> pystr \<Rightarrow> real option" where
  "inventory_overflow inventory slide_key shape_key =
     (case map_of inventory slide_key of
        None \<Rightarrow> None
      | Some shapes_dict \<Rightarrow>
          (case map_of shapes_dict shape_key of
             None \<Rightarrow> None
           | Some shape_data \<Rightarrow> frame_overflow_bottom shape_data))"

definition wf_inventory :: "inventory_data \<Rightarrow> bool" where
  "wf_inventory inventory =
     (distinct (map fst inventory)
      \<and> list_all (\<lambda>item. distinct (map fst (snd item))) inventory)"

definition lookup2 :: "(pystr \<times> (pystr \<times> real) list) list \<Rightarrow> pystr \<Rightarrow> pystr \<Rightarrow> real option" where
  "lookup2 overflow_map slide_key shape_key =
     (case map_of overflow_map slide_key of None \<Rightarrow> None | Some m \<Rightarrow> map_of m shape_key)"

definition wf_overflow :: "(pystr \<times> (pystr \<times> real) list) list \<Rightarrow> bool" where
  "wf_overflow overflow_map =
     (distinct (map fst overflow_map)
      \<and> list_all (\<lambda>item. distinct (map fst (snd item))) overflow_map)"

text \<open>
  A deck for experiments: one slide with one shape whose frame holds one old paragraph.
  The inventory measures no overflow of the shape as long as the frame holds exactly the
  old paragraph, and \<open>after\<close> inches otherwise.
\<close>

definition example_prs :: "nat presentation" where
  "example_prs = \<lparr>n_slides = 1, text_frames = (\<lambda>ref. [0])\<rparr>"

definition example_lib :: "real \<Rightarrow> nat pptx_lib" where
  "example_lib after =
     \<lparr>extract_text_inventory =
        (\<lambda>prs. [(py ''slide-0'',
                  [(py ''shape-0'',
                    \<lparr>shape = Some 0, paragraphs = [\<lparr>para_text = py ''Title''\<rparr>],
                     frame_overflow_bottom = Some (if text_frames prs 0 = [0] then 0 else after),
                     warnings = []\<rparr>)])]),
      py_int = (\<lambda>s. if s = py ''0'' then Some 0 else None),
      paragraph_error = (\<lambda>para_data. None)\<rparr>"

definition example_replacements :: "nat replacements" where
  "example_replacements = [(py ''slide-0'', [(py ''shape-0'', Some [1])])]"

definition example_edited :: "nat presentation" where
  "example_edited = \<lparr>n_slides = 1, text_frames = (\<lambda>ref. [0])(0 := [1])\<rparr>"

text \<open>
  An inventory and a replacement document for experiments: the document names a shape
  and a slide that the inventory does not have and addresses none of the two shapes of
  the slide.
\<close>

definition example_inventory :: inventory_data where
  "example_inventory =
     [(py ''slide-0'',
       [(py ''shape-1'',
         \<lparr>shape = Some 1, paragraphs = [], frame_overflow_bottom = None, warnings = []\<rparr>),
        (py ''shape-0'',
         \<lparr>shape = Some 0, paragraphs = [\<lparr>para_text = py ''Hello''\<rparr>],
          frame_overflow_bottom = None, warnings = []\<rparr>)])]"

definition example_bad_replacements :: "nat replacements" where
  "example_bad_replacements = [(py ''slide-0'', [(py ''shape-5'', None)]), (py ''slide-7'', [])]"

section \<open>Properties of gif\_builder.py\<close>

lemma all_kept_snoc:
  "ds \<noteq> [] \<Longrightarrow> all_kept sim t ds \<Longrightarrow> sim (last ds) c = Inr s \<Longrightarrow> score_less s t
    \<Longrightarrow> all_kept sim t (ds @ [c])"
proof (induction sim t ds rule: all_kept.induct)
  case (3 sim t x y ys)
  then show ?case by (simp split: sum.splits)
qed simp_all

lemma dedup_loop_all_kept:
  "ds \<noteq> [] \<Longrightarrow> all_kept sim t ds \<Longrightarrow> dedup_loop sim t ds n fs = Inr (ds', n')
    \<Longrightarrow> ds' \<noteq> [] \<and> all_kept sim t ds'"
proof (induction fs arbitrary: ds n)
  case Nil
  then show ?case by simp
next
  case (Cons c fs)
  show ?case
  proof (cases "sim (last ds) c")
    case (Inl e)
    with Cons.prems show ?thesis by simp
  next
    case (Inr s)
    show ?thesis
    proof (cases "score_less s t")
      case True
      with Inr Cons.prems have "dedup_loop sim t (ds @ [c]) n fs = Inr (ds', n')" by simp
      moreover have "all_kept sim t (ds @ [c])"
        by (rule all_kept_snoc [OF Cons.prems(1,2) Inr True])
      ultimately show ?thesis using Cons.IH [of "ds @ [c]" n] by simp
    next
      case False
      with Inr Cons.prems have "dedup_loop sim t ds (n + 1) fs = Inr (ds', n')" by simp
      then show ?thesis by (rule Cons.IH [OF Cons.prems(1,2)])
    qed
  qed
qed

lemma all_kept_last_next:
  "ds \<noteq> [] \<Longrightarrow> all_kept sim t (ds @ c # fs)
    \<Longrightarrow> \<exists>s. sim (last ds) c = Inr s \<and> score_less s t"
proof (induction sim t ds rule: all_kept.induct)
  case (2 sim t x)
  then show ?case by (simp split: sum.splits)
next
  case (3 sim t x y ys)
  then show ?case by (simp split: sum.splits)
qed simp

lemma dedup_loop_fixed:
  "ds \<noteq> [] \<Longrightarrow> all_kept sim t (ds @ fs) \<Longrightarrow> dedup_loop sim t ds n fs = Inr (ds @ fs, n)"
proof (induction fs arbitrary: ds)
  case Nil
  then show ?case by simp
next
  case (Cons c fs)
  obtain s where s: "sim (last ds) c = Inr s" "score_less s t"
    using all_kept_last_next [OF Cons.prems] by auto
  have "dedup_loop sim t (ds @ [c]) n fs = Inr ((ds @ [c]) @ fs, n)"
    using Cons.IH [of "ds @ [c]"] Cons.prems(2) by simp
  with s show ?case by simp
qed

text \<open>
  C8. Running \<^verbatim>\<open>deduplicate_frames\<close> a second time with the same threshold, right after
  a first run that returned, removes no frame and leaves the builder as the first run left
  it. This holds for every similarity computation \<open>sim\<close> (so also for the float32 one of
  numpy), every threshold and every list of frames.
\<close>

theorem deduplicate_frames_idempotent:
  assumes "deduplicate_frames sim threshold self = Inr (removed, self')"
  shows "deduplicate_frames sim threshold self' = Inr (0, self')"
proof (cases "length (frames self) < 2")
  case True
  with assms show ?thesis by (auto simp: deduplicate_frames_def)
next
  case False
  then obtain f fs where ffs: "frames self = f # fs"
    by (cases "frames self") auto
  from assms False obtain ds where
    loop: "dedup_loop sim threshold [f] 0 fs = Inr (ds, removed)" and
    self': "self' = self\<lparr>frames := ds\<rparr>"
    by (auto simp: deduplicate_frames_def ffs split: sum.splits)
  have kept: "ds \<noteq> [] \<and> all_kept sim threshold ds"
    using dedup_loop_all_kept [OF _ _ loop] by simp
  then obtain d ds' where ds: "ds = d # ds'"
    by (cases ds) auto
  have "dedup_loop sim threshold [d] 0 ds' = Inr ([d] @ ds', 0)"
    using dedup_loop_fixed [of "[d]" sim threshold ds' 0] kept ds by simp
  then show ?thesis
    by (simp add: deduplicate_frames_def self' ds)
qed

theorem deduplicate_frames_idempotent_witness:
  "deduplicate_frames similarity 0.9995
       \<lparr>width = 1, height = 1, fps = 15, frames = [[0, 0, 0], [0, 0, 0], [255, 0, 0]]\<rparr>
     = Inr (1, \<lparr>width = 1, height = 1, fps = 15, frames = [[0, 0, 0], [255, 0, 0]]\<rparr>)
   \<and> deduplicate_frames similarity 0.9995
       \<lparr>width = 1, height = 1, fps = 15, frames = [[0, 0, 0], [255, 0, 0]]\<rparr>
     = Inr (0, \<lparr>width = 1, height = 1, fps = 15, frames = [[0, 0, 0], [255, 0, 0]]\<rparr>)"
proof -
  have first: "deduplicate_frames similarity 0.9995
       \<lparr>width = 1, height = 1, fps = 15, frames = [[0, 0, 0], [0, 0, 0], [255, 0, 0]]\<rparr>
     = Inr (1, \<lparr>width = 1, height = 1, fps = 15, frames = [[0, 0, 0], [255, 0, 0]]\<rparr>)"
    by (simp add: deduplicate_frames_def similarity_def)
  show ?thesis by (rule conjI [OF first deduplicate_frames_idempotent [OF first]])
qed

lemma range_step_one: "range_step n (Suc 0) = [0..<n]"
  by (simp add: range_step_def)

lemma length_optimize_colors: "length (optimize_colors lib n g self) = length (frames self)"
  by (simp add: optimize_colors_def Let_def)

text \<open>
  C7, as stated, fails: a builder with a 200 by 200 canvas and 20 frames, saved with
  \<^verbatim>\<open>optimize_for_emoji=True\<close>, reports 20 frames, not at most 12. The stride is
  \<^verbatim>\<open>max(1, 20 // 12)\<close>, which is 1, so \<^verbatim>\<open>range(0, 20, 1)\<close> keeps every frame.
\<close>

theorem save_emoji_20_frames_counterexample:
  "map_sum id (\<lambda>(info, self'). (dimensions info, colors info, frame_count info, length (frames self')))
     (save plain_imaging similarity ''emoji.gif'' 128 True False twenty_frames)
   = Inr ((128, 128), 48, 20, 20)"
  by (simp add: save_def Let_def length_optimize_colors range_step_one twenty_frames_def)

text \<open>
  C7, amended. A builder with a 200 by 200 canvas, 15 frames per second and 20 frames, saved
  with \<^verbatim>\<open>optimize_for_emoji=True\<close>, whatever the frames, the imaging library, the path
  and the number of colours asked for: the report has the dimensions 128 by 128 and at most
  48 colours (the smaller of the number asked for and 48), and its frame count is 20, as
  is the number of frames the builder is left with, since the stride \<^verbatim>\<open>max(1, 20 // 12)\<close>
  is 1 and no frame is dropped.
\<close>

theorem save_emoji_20_frames:
  "map_sum id (\<lambda>(info, self'). (dimensions info, colors info, frame_count info, length (frames self')))
     (save lib sim output_path num_colors True False
        \<lparr>width = 200, height = 200, fps = 15,
         frames = [f0, f1, f2, f3, f4, f5, f6, f7, f8, f9,
                   f10, f11, f12, f13, f14, f15, f16, f17, f18, f19]\<rparr>)
   = Inr ((128, 128), min num_colors 48, 20, 20)"
  by (simp add: save_def Let_def length_optimize_colors range_step_one)


section \<open>Properties of docx.py\<close>

lemma run_check_fold:
  "run_check check acc = (fst acc \<and> fst (check (snd acc)), snd (check (snd acc)))"
  by (auto simp: run_check_def split: prod.splits)

lemma run_all_Cons:
  "run_all (check # checks) s =
     (fst (check s) # fst (run_all checks (snd (check s))), snd (run_all checks (snd (check s))))"
  by (simp split: prod.splits)

text \<open>
  C6. When the well-formedness check fails, \<^verbatim>\<open>validate\<close> returns \<open>False\<close> in the state
  that check left: no other check has run. When it passes, tests 1 to 9 all run in order
  whatever their results, the paragraph comparison runs after them, and the value returned
  is the conjunction of the nine results; replacing the paragraph comparison by anything
  else does not change the value returned.
\<close>

theorem validate_runs_all_checks:
  "(\<not> fst (validate_xml self s) \<longrightarrow> validate self s = (False, snd (validate_xml self s)))
   \<and> (fst (validate_xml self s) \<longrightarrow>
        validate self s =
          (list_all id (fst (run_all (tests_1_to_9 self) (snd (validate_xml self s)))),
           compare_paragraph_counts self
             (snd (run_all (tests_1_to_9 self) (snd (validate_xml self s)))))
        \<and> length (fst (run_all (tests_1_to_9 self) (snd (validate_xml self s)))) = 9)
   \<and> fst (validate (self\<lparr>compare_paragraph_counts := other\<rparr>) s) = fst (validate self s)"
proof (cases "validate_xml self s")
  case (Pair ok s0)
  show ?thesis
  proof (cases ok)
    case False
    with Pair show ?thesis by (simp add: validate_def)
  next
    case True
    have "validate self s =
          (list_all id (fst (run_all (tests_1_to_9 self) s0)),
           compare_paragraph_counts self (snd (run_all (tests_1_to_9 self) s0)))"
      using Pair True
      by (simp add: validate_def tests_1_to_9_def run_check_fold run_all_Cons Let_def conj_ac
            del: run_all.simps(2))
    moreover have "length (fst (run_all (tests_1_to_9 self) s0)) = 9"
      by (simp add: tests_1_to_9_def run_all_Cons del: run_all.simps(2))
    moreover have "fst (validate (self\<lparr>compare_paragraph_counts := other\<rparr>) s) = fst (validate self s)"
      using Pair True by (simp add: validate_def Let_def)
    ultimately show ?thesis using Pair True by simp
  qed
qed

theorem validate_runs_all_checks_witness:
  "validate (traced_validator {0, 3}) [] = (False, [0])
   \<and> validate (traced_validator {3, 7}) [] = (False, [0, 1, 2, 3, 4, 5, 6, 7, 8, 9, 10])
   \<and> validate (traced_validator {}) [] = (True, [0, 1, 2, 3, 4, 5, 6, 7, 8, 9, 10])"
  using validate_runs_all_checks [of "traced_validator {0, 3}" "[]" id]
    validate_runs_all_checks [of "traced_validator {3, 7}" "[]" id]
    validate_runs_all_checks [of "traced_validator {}" "[]" id]
  by (simp add: traced_validator_def traced_check_def tests_1_to_9_def run_all_Cons
        del: run_all.simps(2))


section \<open>Properties of thumbnail.py\<close>

lemma py_str_digit: "n < 10 \<Longrightarrow> py_str n = [digit_char n]"
  by (simp add: py_str.simps)

lemma create_grid_cells:
  "create_grid imgs cols start = Inr grid
    \<Longrightarrow> map (\<lambda>c. (label c, img c)) grid = map (\<lambda>i. (py_str (start + i), imgs ! i)) [0..<length imgs]"
  by (auto simp: create_grid_def enumerate_eq_zip map_nth split: if_splits intro!: nth_equalityI)

lemma grids_from_cells:
  "grids_from imgs cols m k start = Inr grids \<Longrightarrow> start \<le> length imgs \<Longrightarrow> 0 < m
    \<Longrightarrow> map (\<lambda>c. (label c, img c)) (concat (map snd grids))
        = map (\<lambda>p. (py_str p, imgs ! p)) [start..<length imgs]"
proof (induction imgs cols m k start arbitrary: grids rule: grids_from.induct)
  case (1 imgs cols m k start)
  show ?case
  proof (cases "start < length imgs \<and> 0 < m")
    case False
    with "1.prems" show ?thesis
      by (simp add: grids_from.simps [of imgs cols m k start])
  next
    case True
    define e where "e = min (start + m) (length imgs)"
    define chunk where "chunk = take (e - start) (drop start imgs)"
    from True "1.prems"(1) obtain grid rest where
      grid: "create_grid chunk cols start = Inr grid" and
      rest: "grids_from imgs cols m (k + 1) (start + m) = Inr rest" and
      grids: "grids = (if length imgs \<le> m then Output_path else Numbered (k + 1), grid) # rest"
      by (auto simp: grids_from.simps [of imgs cols m k start] Let_def e_def chunk_def
               split: sum.splits)
    have len: "length chunk = e - start" "start \<le> e" "e \<le> length imgs"
      using True by (auto simp: chunk_def e_def)
    have a: "map (\<lambda>c. (label c, img c)) grid = map (\<lambda>p. (py_str p, imgs ! p)) [start..<e]"
    proof -
      have "map (\<lambda>c. (label c, img c)) grid
            = map (\<lambda>i. (py_str (start + i), chunk ! i)) [0..<e - start]"
        using create_grid_cells [OF grid] len by simp
      also have "\<dots> = map (\<lambda>p. (py_str p, imgs ! p)) [start..<e]"
        using len by (auto simp: chunk_def intro!: nth_equalityI)
      finally show ?thesis .
    qed
    have b: "map (\<lambda>c. (label c, img c)) (concat (map snd rest))
             = map (\<lambda>p. (py_str p, imgs ! p)) [e..<length imgs]"
    proof (cases "start + m \<le> length imgs")
      case le: True
      then have "e = start + m" by (simp add: e_def)
      have "map (\<lambda>c. (label c, img c)) (concat (map snd rest))
             = map (\<lambda>p. (py_str p, imgs ! p)) [start + m..<length imgs]"
        by (rule "1.IH" [OF True refl refl grid [unfolded chunk_def e_def] refl rest le "1.prems"(3)])
      then show ?thesis by (simp add: \<open>e = start + m\<close>)
    next
      case gt: False
      then have "e = length imgs" by (simp add: e_def)
      moreover have "rest = []"
        using rest gt by (subst (asm) grids_from.simps) simp
      ultimately show ?thesis by simp
    qed
    have "[start..<length imgs] = [start..<e] @ [e..<length imgs]"
      using len by (metis le_Suc_ex upt_add_eq_append)
    with a b show ?thesis by (simp add: grids)
  qed
qed


text \<open>
  C9. Whenever \<^verbatim>\<open>create_grids\<close> returns, the cells of its grids, read in order, show
  the slides of the deck in order, and the cell of the slide at the 0-based position \<open>p\<close>
  carries the label \<^verbatim>\<open>str(p)\<close>: the first slide is labelled 0 and the slide with the
  1-based number \<open>N\<close> is labelled \<open>N - 1\<close>.
\<close>

theorem create_grids_labels_zero_based:
  assumes "create_grids image_paths cols = Inr grid_files"
  shows "map (\<lambda>c. (label c, img c)) (concat (map snd grid_files))
          = map (\<lambda>p. (py_str p, image_paths ! p)) [0..<length image_paths]
     \<and> (image_paths \<noteq> [] \<longrightarrow> label (hd (concat (map snd grid_files))) = ''0'')
     \<and> (\<forall>N. 1 \<le> N \<and> N \<le> length image_paths
            \<longrightarrow> label (concat (map snd grid_files) ! (N - 1)) = py_str (N - 1))"
proof -
  from assms have m: "0 < nat (cols * (cols + 1))"
    and g: "grids_from image_paths cols (nat (cols * (cols + 1))) 0 0 = Inr grid_files"
    by (auto simp: create_grids_def Let_def split: if_splits
             intro: zero_less_mult_iff [THEN iffD2])
  have all: "map (\<lambda>c. (label c, img c)) (concat (map snd grid_files))
          = map (\<lambda>p. (py_str p, image_paths ! p)) [0..<length image_paths]"
    using grids_from_cells [OF g _ m] by simp
  have len: "length (concat (map snd grid_files)) = length image_paths"
    using arg_cong [OF all, of length] by simp
  have nth: "label (concat (map snd grid_files) ! p) = py_str p" if "p < length image_paths" for p
    using arg_cong [OF all, of "\<lambda>xs. fst (xs ! p)"] that len by simp
  have first: "label (hd (concat (map snd grid_files))) = ''0''" if "image_paths \<noteq> []"
  proof -
    from that len have "length (concat (map snd grid_files)) \<noteq> 0" by simp
    then have "concat (map snd grid_files) \<noteq> []" unfolding length_0_conv .
    then show ?thesis using nth [of 0] that
      by (simp add: hd_conv_nth digit_char_def py_str_digit)
  qed
  have nth1: "label (concat (map snd grid_files) ! (N - 1)) = py_str (N - 1)"
    if "1 \<le> N \<and> N \<le> length image_paths" for N
  proof -
    from that have "N - 1 < length image_paths" by arith
    then show ?thesis by (rule nth)
  qed
  show ?thesis
    by (intro conjI impI allI) (rule all, erule first, erule nth1)
qed

theorem create_grids_labels_zero_based_witness:
  "create_grids [''a.jpg'', ''b.jpg'', ''c.jpg''] 1
     = Inr [(Numbered 1, [\<lparr>label = ''0'', img = ''a.jpg'', row = 0, col = 0\<rparr>,
                          \<lparr>label = ''1'', img = ''b.jpg'', row = 1, col = 0\<rparr>]),
            (Numbered 2, [\<lparr>label = ''2'', img = ''c.jpg'', row = 0, col = 0\<rparr>])]
   \<and> [''a.jpg'', ''b.jpg'', ''c.jpg''] \<noteq> []
   \<and> label (hd (concat (map snd
         [(Numbered 1, [\<lparr>label = ''0'', img = ''a.jpg'', row = 0, col = 0\<rparr>,
                          \<lparr>label = ''1'', img = ''b.jpg'', row = 1, col = 0\<rparr>]),
            (Numbered (2::nat), [\<lparr>label = ''2'', img = ''c.jpg'', row = 0, col = 0\<rparr>])]))) = ''0''"
proof -
  have run: "create_grids [''a.jpg'', ''b.jpg'', ''c.jpg''] 1
     = Inr [(Numbered 1, [\<lparr>label = ''0'', img = ''a.jpg'', row = 0, col = 0\<rparr>,
                          \<lparr>label = ''1'', img = ''b.jpg'', row = 1, col = 0\<rparr>]),
            (Numbered 2, [\<lparr>label = ''2'', img = ''c.jpg'', row = 0, col = 0\<rparr>])]"
    by (simp add: create_grids_def grids_from.simps create_grid_def digit_char_def enumerate_eq_zip
          upt_rec py_str_digit)
  have ne: "[''a.jpg'', ''b.jpg'', ''c.jpg''] \<noteq> []" by simp
  from create_grids_labels_zero_based [OF run, THEN conjunct2, THEN conjunct1, THEN mp, OF ne]
  show ?thesis by (intro conjI run ne)
qed


section \<open>Properties of validators.py\<close>






section \<open>Properties of extract\_form\_field\_info.py\<close>

text \<open>
  C3, as stated, fails on a button field with three states: the claim has the first state
  taken as the checked value, the second as the unchecked value and a warning printed; the
  descriptor has neither value, and nothing is printed.
\<close>

theorem make_field_dict_three_states_counterexample:
  "make_field_dict
     \<lparr>field_FT = Some ''/Btn'',
      field_States = Some [Name ''/A'', Name ''/B'', Name ''/C''],
      field_Kids = None\<rparr> ''cb''
   = Inr (\<lparr>field_id = ''cb'', ftype = Checkbox, checked_value = None, unchecked_value = None,
           choice_options = None, page = None, rect = None, radio_options = None\<rparr>, [])"
  by (simp add: make_field_dict_def new_field_dict_def)

text \<open>
  C3, amended. For a button field, \<^verbatim>\<open>make_field_dict\<close> returns a checkbox descriptor.
  With exactly two states of which one is \<^verbatim>\<open>/Off\<close>, the checked value is the other state
  and the unchecked value is \<^verbatim>\<open>/Off\<close>, and nothing is printed. With exactly two states
  of which none is \<^verbatim>\<open>/Off\<close>, the first is the checked value and the second the unchecked
  value, and the warning is printed. With any other number of states the descriptor has
  neither value and nothing is printed.
\<close>

theorem make_field_dict_checkbox:
  assumes "field_FT field = Some ''/Btn''"
    and "states = (case field_States field of None \<Rightarrow> [] | Some s \<Rightarrow> s)"
  shows "\<exists>d out. make_field_dict field fid = Inr (d, out) \<and> ftype d = Checkbox
     \<and> (states = [a, b] \<and> a \<noteq> Name ''/Off'' \<and> b = Name ''/Off'' \<longrightarrow>
            checked_value d = Some a \<and> unchecked_value d = Some (Name ''/Off'') \<and> out = [])
     \<and> (states = [a, b] \<and> a = Name ''/Off'' \<longrightarrow>
            checked_value d = Some b \<and> unchecked_value d = Some (Name ''/Off'') \<and> out = [])
     \<and> (states = [a, b] \<and> a \<noteq> Name ''/Off'' \<and> b \<noteq> Name ''/Off'' \<longrightarrow>
            checked_value d = Some a \<and> unchecked_value d = Some b
            \<and> out = [Unexpected_states fid])
     \<and> (length states \<noteq> 2 \<longrightarrow>
            checked_value d = None \<and> unchecked_value d = None \<and> out = [])"
proof -
  have st: "(case field_States field of None \<Rightarrow> [] | Some s \<Rightarrow> s) = states"
    using assms(2) by simp
  have mk: "make_field_dict field fid =
     (if length states = 2 then
        (if Name ''/Off'' \<in> set states then
           Inr ((new_field_dict fid Checkbox)
                  \<lparr>checked_value :=
                     Some (if states ! 0 \<noteq> Name ''/Off'' then states ! 0 else states ! 1),
                   unchecked_value := Some (Name ''/Off'')\<rparr>, [])
         else
           Inr ((new_field_dict fid Checkbox)
                  \<lparr>checked_value := Some (states ! 0),
                   unchecked_value := Some (states ! 1)\<rparr>, [Unexpected_states fid]))
      else Inr (new_field_dict fid Checkbox, []))"
    by (simp add: make_field_dict_def assms(1) st Let_def)
  show ?thesis
  proof (cases "length states = 2")
    case False
    then have "states \<noteq> [a, b]" by auto
    with False show ?thesis
      unfolding mk by (simp add: new_field_dict_def)
  next
    case True
    then obtain a' b' where ab: "states = [a', b']"
      by (cases states; cases "tl states") auto
    show ?thesis
      unfolding mk ab by (auto simp: new_field_dict_def)
  qed
qed

theorem make_field_dict_checkbox_witness:
  "(\<exists>d out. make_field_dict
        \<lparr>field_FT = Some ''/Btn'', field_States = Some [Name ''/Yes'', Name ''/Off''],
         field_Kids = None\<rparr> ''cb'' = Inr (d, out)
      \<and> checked_value d = Some (Name ''/Yes'') \<and> unchecked_value d = Some (Name ''/Off'')
      \<and> out = [])
   \<and> (\<exists>d out. make_field_dict
        \<lparr>field_FT = Some ''/Btn'', field_States = Some [Name ''/Off'', Name ''/1''],
         field_Kids = None\<rparr> ''cb'' = Inr (d, out)
      \<and> checked_value d = Some (Name ''/1'') \<and> unchecked_value d = Some (Name ''/Off'')
      \<and> out = [])
   \<and> (\<exists>d out. make_field_dict
        \<lparr>field_FT = Some ''/Btn'', field_States = Some [Name ''/0'', Name ''/1''],
         field_Kids = None\<rparr> ''cb'' = Inr (d, out)
      \<and> checked_value d = Some (Name ''/0'') \<and> unchecked_value d = Some (Name ''/1'')
      \<and> out = [Unexpected_states ''cb''])"
proof (intro conjI)
  show "\<exists>d out. make_field_dict
        \<lparr>field_FT = Some ''/Btn'', field_States = Some [Name ''/Yes'', Name ''/Off''],
         field_Kids = None\<rparr> ''cb'' = Inr (d, out)
      \<and> checked_value d = Some (Name ''/Yes'') \<and> unchecked_value d = Some (Name ''/Off'')
      \<and> out = []"
    using make_field_dict_checkbox [of
      "\<lparr>field_FT = Some ''/Btn'', field_States = Some [Name ''/Yes'', Name ''/Off''],
         field_Kids = None\<rparr>" "[Name ''/Yes'', Name ''/Off'']" "''cb''"
      "Name ''/Yes''" "Name ''/Off''"]
    by auto
  show "\<exists>d out. make_field_dict
        \<lparr>field_FT = Some ''/Btn'', field_States = Some [Name ''/Off'', Name ''/1''],
         field_Kids = None\<rparr> ''cb'' = Inr (d, out)
      \<and> checked_value d = Some (Name ''/1'') \<and> unchecked_value d = Some (Name ''/Off'')
      \<and> out = []"
    using make_field_dict_checkbox [of
      "\<lparr>field_FT = Some ''/Btn'', field_States = Some [Name ''/Off'', Name ''/1''],
         field_Kids = None\<rparr>" "[Name ''/Off'', Name ''/1'']" "''cb''"
      "Name ''/Off''" "Name ''/1''"]
    by auto
  show "\<exists>d out. make_field_dict
        \<lparr>field_FT = Some ''/Btn'', field_States = Some [Name ''/0'', Name ''/1''],
         field_Kids = None\<rparr> ''cb'' = Inr (d, out)
      \<and> checked_value d = Some (Name ''/0'') \<and> unchecked_value d = Some (Name ''/1'')
      \<and> out = [Unexpected_states ''cb'']"
    using make_field_dict_checkbox [of
      "\<lparr>field_FT = Some ''/Btn'', field_States = Some [Name ''/0'', Name ''/1''],
         field_Kids = None\<rparr>" "[Name ''/0'', Name ''/1'']" "''cb''"
      "Name ''/0''" "Name ''/1''"]
    by auto
qed

lemma all_keys_map:
  "all_keys fs = Inr ks \<Longrightarrow> map sort_key_of fs = map Inr ks"
  by (induction fs arbitrary: ks) (auto split: sum.splits)

lemma sort_fields_sorted:
  assumes "sort_fields fs = Inr out"
  shows "\<exists>ks. map sort_key_of out = map Inr ks \<and> sorted ks \<and> mset out = mset fs"
proof -
  from assms obtain ks where ks: "all_keys fs = Inr ks"
    and out: "out = map snd (sort_key fst (zip ks fs))"
    by (auto simp: sort_fields_def split: sum.splits)
  have keys: "map sort_key_of fs = map Inr ks"
    by (rule all_keys_map [OF ks])
  then have len: "length ks = length fs"
    using map_eq_imp_length_eq by fastforce
  have each: "sort_key_of f = Inr k" if "(k, f) \<in> set (zip ks fs)" for k f
  proof -
    from that obtain i where "i < length ks" "i < length fs" "ks ! i = k" "fs ! i = f"
      by (auto simp: set_zip)
    then show ?thesis
      using arg_cong [OF keys, of "\<lambda>xs. xs ! i"] by simp
  qed
  let ?zs = "sort_key fst (zip ks fs)"
  have "map sort_key_of out = map Inr (map fst ?zs)"
    unfolding out using each by (auto simp: set_sort)
  moreover have "sorted (map fst ?zs)"
    by (rule sorted_sort_key)
  moreover have "mset out = mset fs"
  proof -
    have "mset out = image_mset snd (mset ?zs)" by (simp add: out)
    also have "\<dots> = image_mset snd (mset (zip ks fs))" by simp
    also have "\<dots> = mset (map snd (zip ks fs))" by simp
    also have "\<dots> = mset fs" using len by simp
    finally show ?thesis .
  qed
  ultimately show ?thesis by blast
qed


text \<open>
  C5. The list \<^verbatim>\<open>get_field_info\<close> returns holds the located fields and the radio groups
  and nothing else, and it is sorted by the key (page, negated second number of the rect,
  first number of the rect), where the rect of a radio group is that of its first option.
  The example after it has three fields on page 1 with rects starting 0, 700 and
  0, 100 and 50, 700: they come out as the first, the third, the second.
\<close>

theorem get_field_info_sorted:
  assumes "get_field_info reader = Inr (sorted_fields, out)"
  shows "\<exists>fs ks. located_fields reader = Inr (fs, out) \<and> mset sorted_fields = mset fs
           \<and> map sort_key_of sorted_fields = map Inr ks \<and> sorted ks"
proof -
  from assms obtain fs where fs: "located_fields reader = Inr (fs, out)"
    and s: "sort_fields fs = Inr sorted_fields"
    by (auto simp: get_field_info_def split: sum.splits)
  from sort_fields_sorted [OF s] obtain ks where
    "map sort_key_of sorted_fields = map Inr ks" "sorted ks" "mset sorted_fields = mset fs"
    by blast
  with fs show ?thesis by blast
qed

lemma three_fields_run:
  "get_field_info three_fields_reader =
     Inr ([(new_field_dict ''top_left'' Text)\<lparr>page := Some 1, rect := Some (Some [0, 700, 40, 720])\<rparr>,
           (new_field_dict ''top_right'' Text)\<lparr>page := Some 1, rect := Some (Some [50, 700, 90, 720])\<rparr>,
           (new_field_dict ''bottom'' Text)\<lparr>page := Some 1, rect := Some (Some [0, 100, 40, 120])\<rparr>],
          [])"
  by (simp add: get_field_info_def located_fields_def three_fields_reader_def text_field_def
        widget_def add_field_def truthy_list_def make_field_dict_def new_field_dict_def
        add_page_def add_annotation_def get_full_annotation_field_id_def
        sort_fields_def sort_key_of_def enumerate_eq_zip less_eq_prod_def less_prod_def)

theorem get_field_info_sorted_witness:
  "get_field_info three_fields_reader =
     Inr ([(new_field_dict ''top_left'' Text)\<lparr>page := Some 1, rect := Some (Some [0, 700, 40, 720])\<rparr>,
           (new_field_dict ''top_right'' Text)\<lparr>page := Some 1, rect := Some (Some [50, 700, 90, 720])\<rparr>,
           (new_field_dict ''bottom'' Text)\<lparr>page := Some 1, rect := Some (Some [0, 100, 40, 120])\<rparr>],
          [])
   \<and> (\<exists>fs ks. located_fields three_fields_reader = Inr (fs, [])
         \<and> mset [(new_field_dict ''top_left'' Text)\<lparr>page := Some 1, rect := Some (Some [0, 700, 40, 720])\<rparr>,
           (new_field_dict ''top_right'' Text)\<lparr>page := Some 1, rect := Some (Some [50, 700, 90, 720])\<rparr>,
           (new_field_dict ''bottom'' Text)\<lparr>page := Some 1, rect := Some (Some [0, 100, 40, 120])\<rparr>]
            = mset fs
         \<and> map sort_key_of
             [(new_field_dict ''top_left'' Text)\<lparr>page := Some 1, rect := Some (Some [0, 700, 40, 720])\<rparr>,
           (new_field_dict ''top_right'' Text)\<lparr>page := Some 1, rect := Some (Some [50, 700, 90, 720])\<rparr>,
           (new_field_dict ''bottom'' Text)\<lparr>page := Some 1, rect := Some (Some [0, 100, 40, 120])\<rparr>]
             = map Inr ks
         \<and> sorted ks)"
  by (rule conjI [OF three_fields_run get_field_info_sorted [OF three_fields_run]])

lemma make_field_dict_fresh:
  "make_field_dict field fid = Inr (d, out)
    \<Longrightarrow> field_id d = fid \<and> page d = None \<and> rect d = None \<and> radio_options d = None"
  by (auto simp: make_field_dict_def new_field_dict_def Let_def split: if_splits sum.splits)

lemma add_field_fresh:
  assumes "add_field item st = Inr st'" and "fresh_fields (field_info_by_id st)"
  shows "fresh_fields (field_info_by_id st')"
    and "radio_fields_by_id st' = radio_fields_by_id st"
    and "dom (map_of (field_info_by_id st)) \<subseteq> dom (map_of (field_info_by_id st'))"
    and "\<not> truthy_list (field_Kids (snd item)) \<Longrightarrow> fst item \<in> dom (map_of (field_info_by_id st'))"
proof -
  obtain fid field where item: "item = (fid, field)" by (cases item)
  show "fresh_fields (field_info_by_id st')"
    using assms make_field_dict_fresh [of field fid]
    by (auto simp: add_field_def item fresh_fields_def update_conv' distinct_update
             split: if_splits sum.splits prod.splits)
  show "radio_fields_by_id st' = radio_fields_by_id st"
    using assms(1)
    by (auto simp: add_field_def item split: if_splits sum.splits prod.splits)
  show "dom (map_of (field_info_by_id st)) \<subseteq> dom (map_of (field_info_by_id st'))"
    using assms(1)
    by (auto simp: add_field_def item update_conv' split: if_splits sum.splits prod.splits)
  show "fst item \<in> dom (map_of (field_info_by_id st'))" if "\<not> truthy_list (field_Kids (snd item))"
    using assms(1) that
    by (auto simp: add_field_def item update_conv' split: if_splits sum.splits prod.splits)
qed

lemma add_fields_fresh:
  assumes "add_fields items st = Inr st'" and "fresh_fields (field_info_by_id st)"
  shows "fresh_fields (field_info_by_id st')
     \<and> radio_fields_by_id st' = radio_fields_by_id st
     \<and> dom (map_of (field_info_by_id st)) \<subseteq> dom (map_of (field_info_by_id st'))
     \<and> (\<forall>item \<in> set items. \<not> truthy_list (field_Kids (snd item))
            \<longrightarrow> fst item \<in> dom (map_of (field_info_by_id st')))"
  using assms
proof (induction items arbitrary: st)
  case Nil
  then show ?case by simp
next
  case (Cons item items)
  from Cons.prems(1) obtain st1 where
    one: "add_field item st = Inr st1" and rest: "add_fields items st1 = Inr st'"
    by (auto split: sum.splits)
  note f = add_field_fresh [OF one Cons.prems(2)]
  note ih = Cons.IH [OF rest f(1)]
  show ?case
  proof (intro conjI ballI impI)
    show "fresh_fields (field_info_by_id st')" using ih by simp
    show "radio_fields_by_id st' = radio_fields_by_id st" using ih f(2) by simp
    show "dom (map_of (field_info_by_id st)) \<subseteq> dom (map_of (field_info_by_id st'))"
      using ih f(3) by blast
    fix x assume x: "x \<in> set (item # items)" "\<not> truthy_list (field_Kids (snd x))"
    show "fst x \<in> dom (map_of (field_info_by_id st'))"
    proof (cases "x = item")
      case True
      with f(4) x(2) have "fst x \<in> dom (map_of (field_info_by_id st1))" by simp
      with ih show ?thesis by blast
    next
      case False
      with x have "x \<in> set items" by simp
      with ih x(2) show ?thesis by blast
    qed
  qed
qed

lemma fresh_fields_inv: "fresh_fields by_id \<Longrightarrow> fields_inv seen by_id"
  by (simp add: fresh_fields_def fields_inv_def)

lemma placed_by_mono: "seen \<subseteq> seen' \<Longrightarrow> placed_by seen k d \<Longrightarrow> placed_by seen' k d"
  unfolding placed_by_def by blast

lemma paged_by_mono: "seen \<subseteq> seen' \<Longrightarrow> paged_by seen k g \<Longrightarrow> paged_by seen' k g"
  unfolding paged_by_def by blast

lemma option_of_mono: "seen \<subseteq> seen' \<Longrightarrow> option_of seen k opt \<Longrightarrow> option_of seen' k opt"
  unfolding option_of_def by blast

lemma located_inv_mono:
  assumes "seen \<subseteq> seen'" and "located_inv seen st"
  shows "located_inv seen' st"
proof -
  have f: "fields_inv seen' (field_info_by_id st)"
    using assms(2) placed_by_mono [OF assms(1)]
    unfolding located_inv_def fields_inv_def by blast
  have "list_all (option_of seen' k) options" if "list_all (option_of seen k) options" for k options
    using that option_of_mono [OF assms(1)] by (auto simp: list_all_iff)
  then have r: "radio_inv seen' (field_info_by_id st) (radio_fields_by_id st)"
    using assms(2) paged_by_mono [OF assms(1)]
    unfolding located_inv_def radio_inv_def by blast
  from f r show ?thesis by (simp add: located_inv_def)
qed

lemma add_annotation_inv:
  assumes "located_inv seen st"
  shows "located_inv (insert (i, ann) seen) (add_annotation i ann st)"
proof -
  have old: "located_inv (insert (i, ann) seen) st"
    by (rule located_inv_mono [OF _ assms]) blast
  show ?thesis
  proof (cases "get_full_annotation_field_id ann")
    case None
    with old show ?thesis by (simp add: add_annotation_def)
  next
    case (Some fid)
    show ?thesis
    proof (cases "map_of (field_info_by_id st) fid")
      case (Some info)
      define info' where "info' = info\<lparr>page := Some (i + 1), rect := Some (ann_Rect ann)\<rparr>"
      have st': "add_annotation i ann st =
          st\<lparr>field_info_by_id := AList.update fid info' (field_info_by_id st)\<rparr>"
        using \<open>get_full_annotation_field_id ann = Some fid\<close> Some
        by (simp add: add_annotation_def info'_def)
      have placed: "placed_by (insert (i, ann) seen) fid info'"
        unfolding placed_by_def info'_def
        using \<open>get_full_annotation_field_id ann = Some fid\<close> by force
      have same: "field_id info' = fid \<and> radio_options info' = None"
        using old Some by (simp add: located_inv_def fields_inv_def info'_def)
      have "fields_inv (insert (i, ann) seen) (AList.update fid info' (field_info_by_id st))"
        using old placed same
        by (auto simp: located_inv_def fields_inv_def update_conv' distinct_update)
      moreover have "radio_inv (insert (i, ann) seen)
          (AList.update fid info' (field_info_by_id st)) (radio_fields_by_id st)"
        using old Some
        by (auto simp: located_inv_def radio_inv_def update_conv')
      ultimately show ?thesis by (simp add: st' located_inv_def)
    next
      case None
      note no_field = None
      show ?thesis
      proof (cases "fid \<in> possible_radio_names st")
        case False
        with old no_field \<open>get_full_annotation_field_id ann = Some fid\<close> show ?thesis
          by (simp add: add_annotation_def)
      next
        case True
        show ?thesis
        proof (cases "ann_AP_N ann")
          case None
          with old no_field True \<open>get_full_annotation_field_id ann = Some fid\<close> show ?thesis
            by (simp add: add_annotation_def)
        next
          case (Some appearance_states)
          define on_values where "on_values = filter (\<lambda>v. v \<noteq> ''/Off'') appearance_states"
          show ?thesis
          proof (cases "length on_values = 1")
            case False
            with old no_field True Some \<open>get_full_annotation_field_id ann = Some fid\<close>
            show ?thesis
              by (simp add: add_annotation_def on_values_def)
          next
            case one: True
            define radio_group where "radio_group =
              (case map_of (radio_fields_by_id st) fid of
                 Some g \<Rightarrow> g
               | None \<Rightarrow> (new_field_dict fid Radio_group)
                            \<lparr>page := Some (i + 1), radio_options := Some []\<rparr>)"
            define options where
              "options = (case radio_options radio_group of None \<Rightarrow> [] | Some os \<Rightarrow> os)"
            define radio_group' where
              "radio_group' = radio_group\<lparr>radio_options := Some (options @ [(on_values ! 0, ann_Rect ann)])\<rparr>"
            have st': "add_annotation i ann st =
                st\<lparr>radio_fields_by_id := AList.update fid radio_group' (radio_fields_by_id st)\<rparr>"
              using no_field True Some one \<open>get_full_annotation_field_id ann = Some fid\<close>
              by (simp add: add_annotation_def on_values_def radio_group_def options_def radio_group'_def
                    Let_def)
            from one have "on_values ! 0 \<in> set on_values"
              by (simp add: nth_mem)
            then have on: "on_values ! 0 \<in> set appearance_states" "on_values ! 0 \<noteq> ''/Off''"
              by (simp_all add: on_values_def)
            have new_opt: "option_of (insert (i, ann) seen) fid (on_values ! 0, ann_Rect ann)"
              unfolding option_of_def
              using on Some \<open>get_full_annotation_field_id ann = Some fid\<close> by force
            have g: "field_id radio_group = fid \<and> paged_by (insert (i, ann) seen) fid radio_group
                \<and> list_all (option_of (insert (i, ann) seen) fid) options"
            proof (cases "map_of (radio_fields_by_id st) fid")
              case None
              then have "radio_group = (new_field_dict fid Radio_group)
                            \<lparr>page := Some (i + 1), radio_options := Some []\<rparr>"
                by (simp add: radio_group_def)
              then show ?thesis
                using \<open>get_full_annotation_field_id ann = Some fid\<close>
                by (force simp: options_def new_field_dict_def paged_by_def)
            next
              case (Some g0)
              then have eq: "radio_group = g0" by (simp add: radio_group_def)
              from Some have mem: "(fid, g0) \<in> set (radio_fields_by_id st)"
                by (rule map_of_SomeD)
              from old have "\<forall>k g. (k, g) \<in> set (radio_fields_by_id st) \<longrightarrow>
                  field_id g = k \<and> paged_by (insert (i, ann) seen) k g
                  \<and> (\<exists>os. radio_options g = Some os \<and> os \<noteq> []
                        \<and> list_all (option_of (insert (i, ann) seen) k) os)
                  \<and> map_of (field_info_by_id st) k = None"
                by (simp add: located_inv_def radio_inv_def)
              with mem obtain os where "field_id g0 = fid"
                  "paged_by (insert (i, ann) seen) fid g0" "radio_options g0 = Some os"
                  "list_all (option_of (insert (i, ann) seen) fid) os"
                by blast
              then show ?thesis by (simp add: eq options_def)
            qed
            have g': "field_id radio_group' = fid \<and> paged_by (insert (i, ann) seen) fid radio_group'
                \<and> (\<exists>os. radio_options radio_group' = Some os \<and> os \<noteq> []
                      \<and> list_all (option_of (insert (i, ann) seen) fid) os)"
              using g new_opt by (simp add: radio_group'_def paged_by_def)
            have "radio_inv (insert (i, ann) seen) (field_info_by_id st)
                (AList.update fid radio_group' (radio_fields_by_id st))"
              using old g' no_field
              by (auto simp: located_inv_def radio_inv_def update_conv' distinct_update)
            with old show ?thesis by (simp add: st' located_inv_def)
          qed
        qed
      qed
    qed
  qed
qed

lemma add_annotation_other:
  "get_full_annotation_field_id ann \<noteq> Some fid
    \<Longrightarrow> map_of (field_info_by_id (add_annotation i ann st)) fid = map_of (field_info_by_id st) fid"
  by (auto simp: add_annotation_def update_conv' Let_def split: option.splits)

lemma fold_add_annotation_inv:
  "located_inv seen st
    \<Longrightarrow> located_inv (seen \<union> {i} \<times> set anns) (fold (add_annotation i) anns st)"
proof (induction anns arbitrary: seen st)
  case Nil
  then show ?case by simp
next
  case (Cons ann anns)
  have "located_inv (insert (i, ann) seen \<union> {i} \<times> set anns)
          (fold (add_annotation i) anns (add_annotation i ann st))"
    by (rule Cons.IH [OF add_annotation_inv [OF Cons.prems]])
  moreover have "insert (i, ann) seen \<union> {i} \<times> set anns = seen \<union> {i} \<times> set (ann # anns)"
    by auto
  ultimately show ?case by simp
qed

lemma fold_add_annotation_other:
  "\<forall>ann \<in> set anns. get_full_annotation_field_id ann \<noteq> Some fid
    \<Longrightarrow> map_of (field_info_by_id (fold (add_annotation i) anns st)) fid
        = map_of (field_info_by_id st) fid"
  by (induction anns arbitrary: st) (simp_all add: add_annotation_other)

lemma fold_add_page_inv:
  "located_inv seen st
    \<Longrightarrow> located_inv (seen \<union> (\<Union>p \<in> set ps. {fst p} \<times> set (snd p))) (fold add_page ps st)"
proof (induction ps arbitrary: seen st)
  case Nil
  then show ?case by simp
next
  case (Cons p ps)
  obtain i anns where p: "p = (i, anns)" by (cases p)
  have step: "add_page p st = fold (add_annotation i) anns st"
    by (simp add: p add_page_def)
  have "located_inv (seen \<union> {i} \<times> set anns \<union> (\<Union>p \<in> set ps. {fst p} \<times> set (snd p)))
          (fold add_page ps (add_page p st))"
    unfolding step by (rule Cons.IH [OF fold_add_annotation_inv [OF Cons.prems]])
  moreover have "seen \<union> {i} \<times> set anns \<union> (\<Union>p \<in> set ps. {fst p} \<times> set (snd p))
      = seen \<union> (\<Union>q \<in> set (p # ps). {fst q} \<times> set (snd q))"
    by (auto simp: p)
  ultimately show ?case by simp
qed

lemma fold_add_page_other:
  "\<forall>p \<in> set ps. \<forall>ann \<in> set (snd p). get_full_annotation_field_id ann \<noteq> Some fid
    \<Longrightarrow> map_of (field_info_by_id (fold add_page ps st)) fid = map_of (field_info_by_id st) fid"
  by (induction ps arbitrary: st) (auto simp: add_page_def fold_add_annotation_other)

lemma seen_on_pages:
  "(i, ann) \<in> (\<Union>p \<in> set (enumerate 0 all_pages). {fst p} \<times> set (snd p))
    \<Longrightarrow> i < length all_pages \<and> ann \<in> set (all_pages ! i)"
  by (auto simp: in_set_enumerate_eq)

lemma located_fields_props:
  assumes "located_fields reader = Inr (fs, out)"
  shows "f \<in> set fs \<Longrightarrow> radio_options f = None
          \<Longrightarrow> \<exists>i ann. i < length (pages reader) \<and> ann \<in> set (pages reader ! i)
                \<and> get_full_annotation_field_id ann = Some (field_id f)
                \<and> page f = Some (i + 1) \<and> rect f = Some (ann_Rect ann)"
    and "f \<in> set fs \<Longrightarrow> radio_options f = Some options
          \<Longrightarrow> options \<noteq> []
              \<and> (\<exists>i ann. i < length (pages reader) \<and> ann \<in> set (pages reader ! i)
                    \<and> get_full_annotation_field_id ann = Some (field_id f)
                    \<and> page f = Some (i + 1))"
    and "f \<in> set fs \<Longrightarrow> radio_options f = Some options \<Longrightarrow> (v, r) \<in> set options
          \<Longrightarrow> \<exists>i ann states. i < length (pages reader) \<and> ann \<in> set (pages reader ! i)
                \<and> get_full_annotation_field_id ann = Some (field_id f)
                \<and> r = ann_Rect ann \<and> ann_AP_N ann = Some states
                \<and> v \<in> set states \<and> v \<noteq> ''/Off''"
    and "get_fields reader = Some form_fields \<Longrightarrow> (fid, field) \<in> set form_fields
          \<Longrightarrow> \<not> truthy_list (field_Kids field)
          \<Longrightarrow> \<forall>annotations \<in> set (pages reader). \<forall>ann \<in> set annotations.
                get_full_annotation_field_id ann \<noteq> Some fid
          \<Longrightarrow> No_location fid \<in> set out \<and> fid \<notin> field_id ` set fs"
proof -
  define st0 where "st0 = \<lparr>field_info_by_id = [], possible_radio_names = {},
      radio_fields_by_id = [], printed = []\<rparr>"
  from assms obtain ffs st1 where ffs: "get_fields reader = Some ffs"
    and st1: "add_fields ffs st0 = Inr st1"
    by (auto simp: located_fields_def st0_def split: option.splits sum.splits)
  define st2 where "st2 = fold add_page (enumerate 0 (pages reader)) st1"
  define infos where "infos = map snd (field_info_by_id st2)"
  define seen where
    "seen = {} \<union> (\<Union>p \<in> set (enumerate 0 (pages reader)). {fst p} \<times> set (snd p))"
  have fs: "fs = filter (\<lambda>f. page f \<noteq> None) infos @ map snd (radio_fields_by_id st2)"
    and out: "out = printed st2 @ map (\<lambda>f. No_location (field_id f)) (filter (\<lambda>f. page f = None) infos)"
    using assms ffs st1
    by (auto simp: located_fields_def st0_def [symmetric] st2_def infos_def Let_def)
  have fresh0: "fresh_fields (field_info_by_id st0)"
    by (simp add: st0_def fresh_fields_def)
  note f1 = add_fields_fresh [OF st1 fresh0]
  have inv1: "located_inv {} st1"
    using f1 fresh_fields_inv [of "field_info_by_id st1" "{}"]
    by (simp add: located_inv_def radio_inv_def st0_def)
  have inv2: "located_inv seen st2"
    unfolding st2_def seen_def by (rule fold_add_page_inv [OF inv1])
  have on_page: "i < length (pages reader) \<and> ann \<in> set (pages reader ! i)"
    if "(i, ann) \<in> seen" for i ann
    using that seen_on_pages [of i ann "pages reader"] by (simp add: seen_def)
  have d2: "distinct (map fst (field_info_by_id st2))" "distinct (map fst (radio_fields_by_id st2))"
    using inv2 by (simp_all add: located_inv_def fields_inv_def radio_inv_def)
  have field_entry: "field_id d = k \<and> radio_options d = None
      \<and> (page d \<noteq> None \<longrightarrow> placed_by seen k d)"
    if "(k, d) \<in> set (field_info_by_id st2)" for k d
    using inv2 that d2(1) by (auto simp: located_inv_def fields_inv_def)
  have radio_entry: "field_id g = k \<and> paged_by seen k g
      \<and> (\<exists>options. radio_options g = Some options \<and> options \<noteq> []
            \<and> list_all (option_of seen k) options)
      \<and> map_of (field_info_by_id st2) k = None"
    if "(k, g) \<in> set (radio_fields_by_id st2)" for k g
    using inv2 that d2(2) by (auto simp: located_inv_def radio_inv_def)
  have origin: "(\<exists>k. (k, f) \<in> set (field_info_by_id st2) \<and> page f \<noteq> None)
      \<or> (\<exists>k. (k, f) \<in> set (radio_fields_by_id st2))" if "f \<in> set fs" for f
    using that by (auto simp: fs infos_def)
  show "\<exists>i ann. i < length (pages reader) \<and> ann \<in> set (pages reader ! i)
                \<and> get_full_annotation_field_id ann = Some (field_id f)
                \<and> page f = Some (i + 1) \<and> rect f = Some (ann_Rect ann)"
    if "f \<in> set fs" "radio_options f = None"
  proof -
    from origin [OF that(1)] that(2) radio_entry obtain k where
      k: "(k, f) \<in> set (field_info_by_id st2)" "page f \<noteq> None"
      by fastforce
    with field_entry [OF k(1)] have "field_id f = k" "placed_by seen k f" by simp_all
    then obtain i ann where "(i, ann) \<in> seen" "get_full_annotation_field_id ann = Some (field_id f)"
        "page f = Some (i + 1)" "rect f = Some (ann_Rect ann)"
      unfolding placed_by_def by auto
    with on_page show ?thesis by blast
  qed
  have radio_origin: "\<exists>k. (k, f) \<in> set (radio_fields_by_id st2)"
    if "f \<in> set fs" "radio_options f = Some options" for options
    using origin [OF that(1)] that(2) field_entry by fastforce
  show "options \<noteq> []
              \<and> (\<exists>i ann. i < length (pages reader) \<and> ann \<in> set (pages reader ! i)
                    \<and> get_full_annotation_field_id ann = Some (field_id f)
                    \<and> page f = Some (i + 1))"
    if "f \<in> set fs" "radio_options f = Some options"
  proof -
    from radio_origin [OF that] obtain k where k: "(k, f) \<in> set (radio_fields_by_id st2)" ..
    from radio_entry [OF k] that(2) have "field_id f = k" "paged_by seen k f" "options \<noteq> []"
      by auto
    then obtain i ann where "(i, ann) \<in> seen" "get_full_annotation_field_id ann = Some (field_id f)"
        "page f = Some (i + 1)"
      unfolding paged_by_def by auto
    with on_page \<open>options \<noteq> []\<close> show ?thesis by blast
  qed
  show "\<exists>i ann states. i < length (pages reader) \<and> ann \<in> set (pages reader ! i)
                \<and> get_full_annotation_field_id ann = Some (field_id f)
                \<and> r = ann_Rect ann \<and> ann_AP_N ann = Some states
                \<and> v \<in> set states \<and> v \<noteq> ''/Off''"
    if "f \<in> set fs" "radio_options f = Some options" "(v, r) \<in> set options"
  proof -
    from radio_origin [OF that(1,2)] obtain k where k: "(k, f) \<in> set (radio_fields_by_id st2)" ..
    from radio_entry [OF k] that(2) have "field_id f = k" "list_all (option_of seen k) options"
      by auto
    with that(3) have "option_of seen (field_id f) (v, r)"
      by (auto simp: list_all_iff)
    then obtain i ann states where "(i, ann) \<in> seen"
        "get_full_annotation_field_id ann = Some (field_id f)" "r = ann_Rect ann"
        "ann_AP_N ann = Some states" "v \<in> set states" "v \<noteq> ''/Off''"
      unfolding option_of_def by auto
    with on_page show ?thesis by blast
  qed
  show "No_location fid \<in> set out \<and> fid \<notin> field_id ` set fs"
    if a: "get_fields reader = Some form_fields" "(fid, field) \<in> set form_fields"
      "\<not> truthy_list (field_Kids field)"
      "\<forall>annotations \<in> set (pages reader). \<forall>ann \<in> set annotations.
          get_full_annotation_field_id ann \<noteq> Some fid"
  proof -
    from a(1) ffs have "form_fields = ffs" by simp
    with a(2,3) f1 have "fid \<in> dom (map_of (field_info_by_id st1))" by force
    then obtain d where d1: "map_of (field_info_by_id st1) fid = Some d" by auto
    with f1 have dfresh: "field_id d = fid" "page d = None"
      by (auto simp: fresh_fields_def)
    have "\<forall>p \<in> set (enumerate 0 (pages reader)). \<forall>ann \<in> set (snd p).
            get_full_annotation_field_id ann \<noteq> Some fid"
      using a(4) by (auto simp: in_set_enumerate_eq)
    then have d2': "map_of (field_info_by_id st2) fid = Some d"
      unfolding st2_def using d1 by (simp add: fold_add_page_other)
    then have mem: "(fid, d) \<in> set (field_info_by_id st2)"
      by (rule map_of_SomeD)
    then have "d \<in> set (filter (\<lambda>f. page f = None) infos)"
      using dfresh(2) by (force simp: infos_def)
    then have "No_location (field_id d) \<in> set out"
      by (auto simp: out)
    then have p1: "No_location fid \<in> set out" by (simp add: dfresh(1))
    have p2: "fid \<notin> field_id ` set fs"
    proof
      assume "fid \<in> field_id ` set fs"
      then obtain f where f: "f \<in> set fs" "field_id f = fid" by auto
      from origin [OF f(1)] show False
      proof
        assume "\<exists>k. (k, f) \<in> set (field_info_by_id st2) \<and> page f \<noteq> None"
        then obtain k where k: "(k, f) \<in> set (field_info_by_id st2)" "page f \<noteq> None" by blast
        with field_entry [OF k(1)] f(2) have "(fid, f) \<in> set (field_info_by_id st2)" by simp
        with d2(1) have "map_of (field_info_by_id st2) fid = Some f" by simp
        with d2' dfresh(2) k(2) show False by simp
      next
        assume "\<exists>k. (k, f) \<in> set (radio_fields_by_id st2)"
        then obtain k where k: "(k, f) \<in> set (radio_fields_by_id st2)" ..
        with radio_entry [OF k] f(2) have "map_of (field_info_by_id st2) fid = None" by simp
        with d2' show False by simp
      qed
    qed
    from p1 p2 show ?thesis ..
  qed
qed

text \<open>
  C4, as stated, fails on a text field whose only annotation has no \<^verbatim>\<open>/Rect\<close>: the
  descriptor is emitted, with its page, and its \<^verbatim>\<open>rect\<close> is \<^verbatim>\<open>None\<close>.
\<close>

theorem get_field_info_null_rect_counterexample:
  "get_field_info no_rect_reader =
     Inr ([\<lparr>field_id = ''name'', ftype = Text, checked_value = None, unchecked_value = None,
            choice_options = None, page = Some 1, rect = Some None, radio_options = None\<rparr>],
          [])"
  by (simp add: get_field_info_def located_fields_def no_rect_reader_def text_field_def
        widget_def add_field_def truthy_list_def make_field_dict_def new_field_dict_def
        add_page_def add_annotation_def get_full_annotation_field_id_def
        sort_fields_def sort_key_of_def enumerate_eq_zip)

text \<open>
  C4, amended. Of every descriptor \<^verbatim>\<open>get_field_info\<close> returns: an ordinary field has the
  1-based number of a page that holds an annotation with the field's fully qualified name,
  and its \<^verbatim>\<open>rect\<close> entry is the \<^verbatim>\<open>/Rect\<close> of that annotation, whatever that is
  (\<^verbatim>\<open>None\<close> when the annotation has none); a radio group has the 1-based number of a page
  that holds an annotation with the group's name and at least one option, and each option
  is an on-state and the \<^verbatim>\<open>/Rect\<close> of such an annotation. A field without children for
  which no annotation of any page has its fully qualified name is reported on standard
  output and is not in the list returned.
\<close>

theorem get_field_info_located:
  assumes "get_field_info reader = Inr (sorted_fields, out)"
  shows "(f \<in> set sorted_fields \<and> radio_options f = None \<longrightarrow>
            (\<exists>i ann. i < length (pages reader) \<and> ann \<in> set (pages reader ! i)
                \<and> get_full_annotation_field_id ann = Some (field_id f)
                \<and> page f = Some (i + 1) \<and> rect f = Some (ann_Rect ann)))
     \<and> (f \<in> set sorted_fields \<and> radio_options f = Some options \<longrightarrow>
            options \<noteq> []
            \<and> (\<exists>i ann. i < length (pages reader) \<and> ann \<in> set (pages reader ! i)
                  \<and> get_full_annotation_field_id ann = Some (field_id f)
                  \<and> page f = Some (i + 1)))
     \<and> (f \<in> set sorted_fields \<and> radio_options f = Some options \<and> (v, r) \<in> set options \<longrightarrow>
            (\<exists>i ann states. i < length (pages reader) \<and> ann \<in> set (pages reader ! i)
                \<and> get_full_annotation_field_id ann = Some (field_id f)
                \<and> r = ann_Rect ann \<and> ann_AP_N ann = Some states
                \<and> v \<in> set states \<and> v \<noteq> ''/Off''))
     \<and> (get_fields reader = Some form_fields \<and> (fid, field) \<in> set form_fields
          \<and> \<not> truthy_list (field_Kids field)
          \<and> (\<forall>annotations \<in> set (pages reader). \<forall>ann \<in> set annotations.
                get_full_annotation_field_id ann \<noteq> Some fid)
        \<longrightarrow> No_location fid \<in> set out \<and> fid \<notin> field_id ` set sorted_fields)"
proof -
  from assms obtain fs where fs: "located_fields reader = Inr (fs, out)"
    and s: "sort_fields fs = Inr sorted_fields"
    by (auto simp: get_field_info_def split: sum.splits)
  from sort_fields_sorted [OF s] have "mset sorted_fields = mset fs" by blast
  then have eq: "set sorted_fields = set fs" by (rule mset_eq_setD)
  note p = located_fields_props [OF fs]
  show ?thesis
    unfolding eq
  proof (intro conjI impI)
    assume "f \<in> set fs \<and> radio_options f = None"
    then show "\<exists>i ann. i < length (pages reader) \<and> ann \<in> set (pages reader ! i)
                \<and> get_full_annotation_field_id ann = Some (field_id f)
                \<and> page f = Some (i + 1) \<and> rect f = Some (ann_Rect ann)"
      using p(1) by blast
  next
    assume a: "f \<in> set fs \<and> radio_options f = Some options"
    then show "options \<noteq> []" using p(2) by blast
    from a show "\<exists>i ann. i < length (pages reader) \<and> ann \<in> set (pages reader ! i)
                  \<and> get_full_annotation_field_id ann = Some (field_id f)
                  \<and> page f = Some (i + 1)"
      using p(2) by blast
  next
    assume "f \<in> set fs \<and> radio_options f = Some options \<and> (v, r) \<in> set options"
    then show "\<exists>i ann states. i < length (pages reader) \<and> ann \<in> set (pages reader ! i)
                \<and> get_full_annotation_field_id ann = Some (field_id f)
                \<and> r = ann_Rect ann \<and> ann_AP_N ann = Some states
                \<and> v \<in> set states \<and> v \<noteq> ''/Off''"
      using p(3) by blast
  next
    assume a: "get_fields reader = Some form_fields \<and> (fid, field) \<in> set form_fields
          \<and> \<not> truthy_list (field_Kids field)
          \<and> (\<forall>annotations \<in> set (pages reader). \<forall>ann \<in> set annotations.
                get_full_annotation_field_id ann \<noteq> Some fid)"
    then show "No_location fid \<in> set out" using p(4) by blast
    from a show "fid \<notin> field_id ` set fs" using p(4) by blast
  qed
qed

lemma unlocated_run:
  "get_field_info unlocated_reader =
     Inr ([(new_field_dict ''seen'' Text)\<lparr>page := Some 2, rect := Some (Some [10, 20, 30, 40])\<rparr>],
          [No_location ''lost''])"
  by (simp add: get_field_info_def located_fields_def unlocated_reader_def text_field_def
        widget_def add_field_def truthy_list_def make_field_dict_def new_field_dict_def
        add_page_def add_annotation_def get_full_annotation_field_id_def
        sort_fields_def sort_key_of_def enumerate_eq_zip)

lemma radio_run:
  "get_field_info radio_reader =
     Inr ([(new_field_dict ''choice'' Radio_group)
             \<lparr>page := Some 1,
              radio_options := Some [(''/A'', Some [10, 500, 20, 510]),
                                     (''/B'', Some [10, 480, 20, 490])]\<rparr>],
          [])"
  by (simp add: get_field_info_def located_fields_def radio_reader_def radio_widget_def
        add_field_def truthy_list_def new_field_dict_def
        add_page_def add_annotation_def get_full_annotation_field_id_def
        sort_fields_def sort_key_of_def enumerate_eq_zip Let_def)

theorem get_field_info_located_witness:
  "get_field_info unlocated_reader =
     Inr ([(new_field_dict ''seen'' Text)\<lparr>page := Some 2, rect := Some (Some [10, 20, 30, 40])\<rparr>],
          [No_location ''lost''])
   \<and> (\<exists>i ann. i < length (pages unlocated_reader) \<and> ann \<in> set (pages unlocated_reader ! i)
         \<and> get_full_annotation_field_id ann = Some ''seen''
         \<and> Some (2 :: nat) = Some (i + 1)
         \<and> Some (Some [10, 20, 30, 40]) = Some (ann_Rect ann))
   \<and> No_location ''lost'' \<in> set [No_location ''lost'']
   \<and> ''lost'' \<notin> field_id `
        set [(new_field_dict ''seen'' Text)\<lparr>page := Some 2, rect := Some (Some [10, 20, 30, 40])\<rparr>]
   \<and> get_field_info radio_reader =
     Inr ([(new_field_dict ''choice'' Radio_group)
             \<lparr>page := Some 1,
              radio_options := Some [(''/A'', Some [10, 500, 20, 510]),
                                     (''/B'', Some [10, 480, 20, 490])]\<rparr>],
          [])
   \<and> (\<exists>i ann. i < length (pages radio_reader) \<and> ann \<in> set (pages radio_reader ! i)
         \<and> get_full_annotation_field_id ann = Some ''choice''
         \<and> Some (1 :: nat) = Some (i + 1))
   \<and> (\<exists>i ann states. i < length (pages radio_reader) \<and> ann \<in> set (pages radio_reader ! i)
         \<and> get_full_annotation_field_id ann = Some ''choice''
         \<and> Some [10, 480, 20, 490] = ann_Rect ann \<and> ann_AP_N ann = Some states
         \<and> ''/B'' \<in> set states \<and> ''/B'' \<noteq> ''/Off'')"
proof -
  let ?seen = "(new_field_dict ''seen'' Text)\<lparr>page := Some 2, rect := Some (Some [10, 20, 30, 40])\<rparr>"
  let ?options = "[(''/A'', Some [10, 500, 20, 510 :: real]), (''/B'', Some [10, 480, 20, 490])]"
  let ?choice = "(new_field_dict ''choice'' Radio_group)
                   \<lparr>page := Some 1, radio_options := Some ?options\<rparr>"
  note t = get_field_info_located [OF unlocated_run]
  note u = get_field_info_located [OF radio_run]
  have a: "?seen \<in> set [?seen] \<and> radio_options ?seen = None"
    by (simp add: new_field_dict_def)
  from t [THEN conjunct1, THEN mp, OF a]
  have c1: "\<exists>i ann. i < length (pages unlocated_reader) \<and> ann \<in> set (pages unlocated_reader ! i)
         \<and> get_full_annotation_field_id ann = Some ''seen''
         \<and> Some (2 :: nat) = Some (i + 1)
         \<and> Some (Some [10, 20, 30, 40]) = Some (ann_Rect ann)"
    by (simp add: new_field_dict_def)
  have pre: "get_fields unlocated_reader = Some [(''lost'', text_field), (''seen'', text_field)]
      \<and> (''lost'', text_field) \<in> set [(''lost'', text_field), (''seen'', text_field)]
      \<and> \<not> truthy_list (field_Kids text_field)
      \<and> (\<forall>annotations \<in> set (pages unlocated_reader). \<forall>ann \<in> set annotations.
            get_full_annotation_field_id ann \<noteq> Some ''lost'')"
    by (simp add: unlocated_reader_def text_field_def truthy_list_def widget_def
          get_full_annotation_field_id_def)
  note c4 = t [THEN conjunct2, THEN conjunct2, THEN conjunct2, THEN mp, OF pre]
  have b: "?choice \<in> set [?choice] \<and> radio_options ?choice = Some ?options"
    by (simp add: new_field_dict_def)
  from u [THEN conjunct2, THEN conjunct1, THEN mp, OF b, THEN conjunct2]
  have c2: "\<exists>i ann. i < length (pages radio_reader) \<and> ann \<in> set (pages radio_reader ! i)
         \<and> get_full_annotation_field_id ann = Some ''choice''
         \<and> Some (1 :: nat) = Some (i + 1)"
    by (simp add: new_field_dict_def)
  have c: "?choice \<in> set [?choice] \<and> radio_options ?choice = Some ?options
      \<and> (''/B'', Some [10, 480, 20, 490]) \<in> set ?options"
    by (simp add: new_field_dict_def)
  from u [THEN conjunct2, THEN conjunct2, THEN conjunct1, THEN mp, OF c]
  have c3: "\<exists>i ann states. i < length (pages radio_reader) \<and> ann \<in> set (pages radio_reader ! i)
         \<and> get_full_annotation_field_id ann = Some ''choice''
         \<and> Some [10, 480, 20, 490] = ann_Rect ann \<and> ann_AP_N ann = Some states
         \<and> ''/B'' \<in> set states \<and> ''/B'' \<noteq> ''/Off''"
    by (simp add: new_field_dict_def)
  show ?thesis
    by (rule conjI [OF unlocated_run conjI [OF c1 conjI [OF c4 [THEN conjunct1]
          conjI [OF c4 [THEN conjunct2] conjI [OF radio_run conjI [OF c2 c3]]]]]])
qed


section \<open>Properties of replace.py\<close>

lemma py_simps [simp]: "py [] = []" "py (c # cs) = of_char c # py cs"
  by (simp_all add: py_def)

lemma set_update_subset: "set (AList.update k v al) \<subseteq> insert (k, v) (set al)"
  by (induction al) auto

lemma wf_overflow_entry:
  "wf_overflow om \<Longrightarrow> map_of om sk = Some m \<Longrightarrow> distinct (map fst m)"
  by (auto simp: wf_overflow_def list_all_iff dest: map_of_SomeD)

lemma record_overflow_wf:
  assumes "wf_overflow om"
  shows "wf_overflow (record_overflow sk item om)"
proof (cases item)
  case (Pair shk sd)
  show ?thesis
  proof (cases "frame_overflow_bottom sd")
    case None
    with Pair assms show ?thesis by (simp add: record_overflow_def)
  next
    case (Some v)
    define inner where "inner = (case map_of om sk of None \<Rightarrow> [] | Some m \<Rightarrow> m)"
    have "distinct (map fst inner)"
      using wf_overflow_entry [OF assms] by (auto simp: inner_def split: option.splits)
    then have d: "distinct (map fst (AList.update shk v inner))"
      by (rule distinct_update)
    have r: "record_overflow sk item om = AList.update sk (AList.update shk v inner) om"
      using Pair Some by (simp add: record_overflow_def inner_def)
    show ?thesis
      unfolding r wf_overflow_def list_all_iff
    proof (intro conjI ballI)
      show "distinct (map fst (AList.update sk (AList.update shk v inner) om))"
        using assms by (simp add: wf_overflow_def distinct_update)
      fix x assume "x \<in> set (AList.update sk (AList.update shk v inner) om)"
      then have "x = (sk, AList.update shk v inner) \<or> x \<in> set om"
        using set_update_subset by fastforce
      then show "distinct (map fst (snd x))"
        using d assms by (auto simp: wf_overflow_def list_all_iff)
    qed
  qed
qed

lemma record_overflow_lookup:
  "lookup2 (record_overflow sk (shk, sd) om) sk' shk' =
     (if sk' = sk \<and> shk' = shk \<and> frame_overflow_bottom sd \<noteq> None
      then frame_overflow_bottom sd else lookup2 om sk' shk')"
  by (auto simp: record_overflow_def lookup2_def update_conv' split: option.splits)

lemma fold_record_wf:
  "wf_overflow om \<Longrightarrow> wf_overflow (fold (record_overflow sk) shapes om)"
  by (induction shapes arbitrary: om) (simp_all add: record_overflow_wf)

lemma fold_record_lookup:
  "distinct (map fst shapes) \<Longrightarrow>
   lookup2 (fold (record_overflow sk) shapes om) sk' shk' =
     (case (if sk' = sk
            then (case map_of shapes shk' of None \<Rightarrow> None | Some sd \<Rightarrow> frame_overflow_bottom sd)
            else None) of
        Some v \<Rightarrow> Some v
      | None \<Rightarrow> lookup2 om sk' shk')"
proof (induction shapes arbitrary: om)
  case Nil
  then show ?case by simp
next
  case (Cons item shapes)
  obtain shk sd where item: "item = (shk, sd)" by (cases item)
  from Cons.prems have d: "distinct (map fst shapes)" and notin: "shk \<notin> fst ` set shapes"
    by (auto simp: item)
  from notin have none: "map_of shapes shk = None"
    by (simp add: map_of_eq_None_iff)
  show ?case
    using Cons.IH [OF d, of "record_overflow sk (shk, sd) om"] none
    by (auto simp: item record_overflow_lookup split: option.splits)
qed

lemma detect_fold_wf:
  "wf_overflow om \<Longrightarrow>
   wf_overflow (fold (\<lambda>(slide_key, shapes_dict) overflow_map.
                  fold (record_overflow slide_key) shapes_dict overflow_map) inventory om)"
  by (induction inventory arbitrary: om) (auto simp: fold_record_wf)

lemma detect_fold_lookup:
  "wf_inventory inventory \<Longrightarrow>
   lookup2 (fold (\<lambda>(slide_key, shapes_dict) overflow_map.
              fold (record_overflow slide_key) shapes_dict overflow_map) inventory om) sk' shk' =
     (case inventory_overflow inventory sk' shk' of
        Some v \<Rightarrow> Some v
      | None \<Rightarrow> lookup2 om sk' shk')"
proof (induction inventory arbitrary: om)
  case Nil
  then show ?case by (simp add: inventory_overflow_def)
next
  case (Cons item inventory)
  obtain sk shapes where item: "item = (sk, shapes)" by (cases item)
  from Cons.prems have wf: "wf_inventory inventory" and ds: "distinct (map fst shapes)"
    and notin: "sk \<notin> fst ` set inventory"
    by (auto simp: wf_inventory_def item)
  from notin have none: "map_of inventory sk = None"
    by (simp add: map_of_eq_None_iff)
  show ?case
    using Cons.IH [OF wf, of "fold (record_overflow sk) shapes om"] none
    by (auto simp: item fold_record_lookup [OF ds] inventory_overflow_def split: option.splits)
qed

lemma detect_frame_overflow_wf: "wf_overflow (detect_frame_overflow inventory)"
  unfolding detect_frame_overflow_def
  by (rule detect_fold_wf) (simp add: wf_overflow_def)

lemma lookup2_Nil: "lookup2 [] sk shk = None"
  by (simp add: lookup2_def)

lemma detect_frame_overflow_lookup:
  "wf_inventory inventory \<Longrightarrow>
   lookup2 (detect_frame_overflow inventory) sk shk = inventory_overflow inventory sk shk"
  unfolding detect_frame_overflow_def
  by (simp add: detect_fold_lookup lookup2_Nil split: option.splits)

lemma original_of_lookup:
  "original_of om sk shk = (case lookup2 om sk shk of None \<Rightarrow> 0 | Some v \<Rightarrow> v)"
  by (simp add: original_of_def lookup2_def split: option.splits)

lemma wf_overflow_member:
  "wf_overflow om \<Longrightarrow>
   ((sk, m) \<in> set om \<and> (shk, v) \<in> set m) = (map_of om sk = Some m \<and> map_of m shk = Some v)"
  by (auto simp: wf_overflow_def list_all_iff dest: map_of_SomeD)

lemma overflow_errors_of_empty:
  assumes "wf_overflow updated"
  shows "(overflow_errors_of original updated = []) =
         (\<forall>sk shk new. lookup2 updated sk shk = Some new
             \<longrightarrow> \<not> new > original_of original sk shk + 0.01)"
proof -
  have "(overflow_errors_of original updated = []) =
        (\<forall>sk m shk new. (sk, m) \<in> set updated \<and> (shk, new) \<in> set m
            \<longrightarrow> \<not> new > original_of original sk shk + 0.01)"
    by (fastforce simp: overflow_errors_of_def Let_def)
  also have "\<dots> = (\<forall>sk m shk new. map_of updated sk = Some m \<and> map_of m shk = Some new
            \<longrightarrow> \<not> new > original_of original sk shk + 0.01)"
    by (simp only: wf_overflow_member [OF assms])
  also have "\<dots> = (\<forall>sk shk new. lookup2 updated sk shk = Some new
             \<longrightarrow> \<not> new > original_of original sk shk + 0.01)"
    by (auto simp: lookup2_def split: option.splits)
  finally show ?thesis .
qed

lemma warnings_of_empty:
  "(warnings_of inventory = []) =
   (\<forall>sk shapes shk sd. (sk, shapes) \<in> set inventory \<and> (shk, sd) \<in> set shapes
       \<longrightarrow> warnings sd = [])"
  by (fastforce simp: warnings_of_def)

lemma example_edits:
  "replace_slides (example_lib after) example_replacements
       (extract_text_inventory (example_lib after) example_prs)
       (example_prs, \<lparr>shapes_processed = 0, shapes_cleared = 0, shapes_replaced = 0\<rparr>)
     = (None, example_edited, \<lparr>shapes_processed = 1, shapes_cleared = 1, shapes_replaced = 1\<rparr>)"
  by (simp add: example_lib_def example_prs_def example_replacements_def example_edited_def
        replace_slide_def replace_shape_def startswith_def)

lemma example_valid:
  "validate_replacements (extract_text_inventory (example_lib after) example_prs)
     example_replacements = []"
  by (simp add: example_lib_def example_replacements_def validate_replacements_def
        check_slide_key_def check_shape_key_def startswith_def)

lemma example_wf:
  "wf_inventory (extract_text_inventory (example_lib after) p)"
  by (simp add: example_lib_def wf_inventory_def)

text \<open>
  C1. When the replacement keys are valid and the edits end without exception: if some
  shape of the inventory taken after the edits has a measured overflow that exceeds its
  overflow before the edits (0.0 when it had none) by more than 0.01, then
  \<^verbatim>\<open>apply_replacements\<close> raises and nothing is saved to the output path; if every such
  overflow is within the old value plus 0.01 and the new inventory has no warning, the
  edited presentation is saved. The example after it has the overflow go from 0.0 to 0.05, which
  raises, and from 0.0 to 0.005, which saves.
\<close>

theorem apply_replacements_overflow_gate:
  assumes "wf_inventory (extract_text_inventory lib prs)"
    and "validate_replacements (extract_text_inventory lib prs) replacements = []"
    and "replace_slides lib replacements (extract_text_inventory lib prs)
           (prs, \<lparr>shapes_processed = 0, shapes_cleared = 0, shapes_replaced = 0\<rparr>)
         = (None, prs', stats)"
    and "wf_inventory (extract_text_inventory lib prs')"
  shows "((\<exists>sk shk new. inventory_overflow (extract_text_inventory lib prs') sk shk = Some new
             \<and> new > (case inventory_overflow (extract_text_inventory lib prs) sk shk of
                        None \<Rightarrow> 0 | Some v \<Rightarrow> v) + 0.01)
          \<longrightarrow> (\<exists>errors found. raised (apply_replacements lib prs replacements)
                                  = Some (Problems_detected errors found))
              \<and> output_file (apply_replacements lib prs replacements) = None)
     \<and> ((\<forall>sk shk new. inventory_overflow (extract_text_inventory lib prs') sk shk = Some new
             \<longrightarrow> new \<le> (case inventory_overflow (extract_text_inventory lib prs) sk shk of
                          None \<Rightarrow> 0 | Some v \<Rightarrow> v) + 0.01)
          \<and> warnings_of (extract_text_inventory lib prs') = []
          \<longrightarrow> raised (apply_replacements lib prs replacements) = None
              \<and> output_file (apply_replacements lib prs replacements) = Some prs')"
proof -
  define original where "original = detect_frame_overflow (extract_text_inventory lib prs)"
  define updated where "updated = detect_frame_overflow (extract_text_inventory lib prs')"
  have orig: "original_of original sk shk =
      (case inventory_overflow (extract_text_inventory lib prs) sk shk of None \<Rightarrow> 0 | Some v \<Rightarrow> v)"
    for sk shk
    by (simp add: original_of_lookup original_def detect_frame_overflow_lookup [OF assms(1)])
  have upd: "lookup2 updated sk shk = inventory_overflow (extract_text_inventory lib prs') sk shk"
    for sk shk
    by (simp add: updated_def detect_frame_overflow_lookup [OF assms(4)])
  have empty: "(overflow_errors_of original updated = []) =
      (\<forall>sk shk new. inventory_overflow (extract_text_inventory lib prs') sk shk = Some new
          \<longrightarrow> \<not> new > (case inventory_overflow (extract_text_inventory lib prs) sk shk of
                          None \<Rightarrow> 0 | Some v \<Rightarrow> v) + 0.01)"
    using overflow_errors_of_empty [of updated original]
    by (simp add: updated_def detect_frame_overflow_wf upd [unfolded updated_def] orig)
  have run: "apply_replacements lib prs replacements =
      (if overflow_errors_of original updated \<noteq> []
          \<or> warnings_of (extract_text_inventory lib prs') \<noteq> []
       then \<lparr>raised = Some (Problems_detected (overflow_errors_of original updated)
                               (warnings_of (extract_text_inventory lib prs'))),
             in_memory = prs', output_file = None, counted = stats\<rparr>
       else \<lparr>raised = None, in_memory = prs', output_file = Some prs', counted = stats\<rparr>)"
    using assms(2,3) by (simp add: apply_replacements_def Let_def original_def updated_def)
  show ?thesis
  proof (intro conjI impI)
    assume "\<exists>sk shk new. inventory_overflow (extract_text_inventory lib prs') sk shk = Some new
             \<and> new > (case inventory_overflow (extract_text_inventory lib prs) sk shk of
                        None \<Rightarrow> 0 | Some v \<Rightarrow> v) + 0.01"
    then have ne: "overflow_errors_of original updated \<noteq> []"
      using empty by blast
    then show "\<exists>errors found. raised (apply_replacements lib prs replacements)
                                  = Some (Problems_detected errors found)"
      by (simp add: run)
    from ne show "output_file (apply_replacements lib prs replacements) = None"
      by (simp add: run)
  next
    assume a: "(\<forall>sk shk new. inventory_overflow (extract_text_inventory lib prs') sk shk = Some new
             \<longrightarrow> new \<le> (case inventory_overflow (extract_text_inventory lib prs) sk shk of
                          None \<Rightarrow> 0 | Some v \<Rightarrow> v) + 0.01)
          \<and> warnings_of (extract_text_inventory lib prs') = []"
    then have e: "overflow_errors_of original updated = []"
      unfolding empty by (simp add: not_less)
    with a show "raised (apply_replacements lib prs replacements) = None"
      by (simp add: run)
    from e a show "output_file (apply_replacements lib prs replacements) = Some prs'"
      by (simp add: run)
  qed
qed

theorem apply_replacements_overflow_gate_witness:
  "(\<exists>errors found. raised (apply_replacements (example_lib 0.05) example_prs example_replacements)
                      = Some (Problems_detected errors found))
   \<and> output_file (apply_replacements (example_lib 0.05) example_prs example_replacements) = None
   \<and> raised (apply_replacements (example_lib 0.005) example_prs example_replacements) = None
   \<and> output_file (apply_replacements (example_lib 0.005) example_prs example_replacements)
       = Some example_edited"
proof -
  note big = apply_replacements_overflow_gate
      [OF example_wf example_valid example_edits example_wf, of "0.05"]
  note small = apply_replacements_overflow_gate
      [OF example_wf example_valid example_edits example_wf, of "0.005"]
  have worse: "\<exists>sk shk new.
      inventory_overflow (extract_text_inventory (example_lib 0.05) example_edited) sk shk = Some new
      \<and> new > (case inventory_overflow (extract_text_inventory (example_lib 0.05) example_prs) sk shk of
                 None \<Rightarrow> 0 | Some v \<Rightarrow> v) + 0.01"
    by (rule exI [of _ "py ''slide-0''"], rule exI [of _ "py ''shape-0''"], rule exI [of _ "0.05"])
       (simp add: inventory_overflow_def example_lib_def example_edited_def example_prs_def)
  have fine: "(\<forall>sk shk new.
      inventory_overflow (extract_text_inventory (example_lib 0.005) example_edited) sk shk = Some new
      \<longrightarrow> new \<le> (case inventory_overflow (extract_text_inventory (example_lib 0.005) example_prs) sk shk of
                 None \<Rightarrow> 0 | Some v \<Rightarrow> v) + 0.01)
      \<and> warnings_of (extract_text_inventory (example_lib 0.005) example_edited) = []"
    by (auto simp: inventory_overflow_def example_lib_def example_edited_def example_prs_def
          warnings_of_def split: if_splits option.splits)
  from big [THEN conjunct1, THEN mp, OF worse] small [THEN conjunct2, THEN mp, OF fine]
  show ?thesis by blast
qed

lemma fold_append_concat:
  "(\<And>x acc. x \<in> set xs \<Longrightarrow> f x acc = acc @ g x) \<Longrightarrow> fold f xs acc = acc @ concat (map g xs)"
  by (induction xs arbitrary: acc) simp_all

lemma unused_with_content_set:
  "set (unused_with_content inventory_shapes shapes_data) =
     {unused_entry k sd | k sd. (k, sd) \<in> set inventory_shapes \<and> k \<notin> fst ` set shapes_data}"
proof -
  have "unused_with_content inventory_shapes shapes_data =
      [] @ concat (map (\<lambda>(k, sd). if map_of shapes_data k = None then [unused_entry k sd] else [])
                    inventory_shapes)"
    unfolding unused_with_content_def
    by (rule fold_append_concat) (auto split: prod.splits)
  then show ?thesis
    by (auto simp: map_of_eq_None_iff split: if_splits)
qed

lemma check_shape_keys_fold:
  "fold (check_shape_key inventory_shapes slide_key shapes_data) keys errors =
     errors @ concat (map (\<lambda>shape_key.
        if map_of inventory_shapes shape_key = None
        then [Shape_not_found shape_key slide_key
                (sort (unused_with_content inventory_shapes shapes_data))]
        else []) keys)"
  by (rule fold_append_concat) (simp add: check_shape_key_def)

lemma validate_replacements_concat:
  "validate_replacements inventory replacements =
     concat (map (\<lambda>(slide_key, shapes_data).
        if \<not> startswith slide_key (py ''slide-'') then []
        else (case map_of inventory slide_key of
                None \<Rightarrow> [Slide_not_found slide_key]
              | Some inventory_shapes \<Rightarrow>
                  concat (map (\<lambda>shape_key.
                    if map_of inventory_shapes shape_key = None
                    then [Shape_not_found shape_key slide_key
                            (sort (unused_with_content inventory_shapes shapes_data))]
                    else []) (map fst shapes_data))))
       replacements)"
proof -
  have "fold (check_slide_key inventory) replacements [] =
     [] @ concat (map (\<lambda>(slide_key, shapes_data).
        if \<not> startswith slide_key (py ''slide-'') then []
        else (case map_of inventory slide_key of
                None \<Rightarrow> [Slide_not_found slide_key]
              | Some inventory_shapes \<Rightarrow>
                  concat (map (\<lambda>shape_key.
                    if map_of inventory_shapes shape_key = None
                    then [Shape_not_found shape_key slide_key
                            (sort (unused_with_content inventory_shapes shapes_data))]
                    else []) (map fst shapes_data))))
       replacements)"
    by (rule fold_append_concat)
       (auto simp: check_slide_key_def check_shape_keys_fold split: prod.splits option.splits)
  then show ?thesis by (simp add: validate_replacements_def)
qed

text \<open>
  C2, as stated, fails on a shape of the inventory that has no paragraph (or an empty first
  text): the error for the unknown shape key lists that shape by its key alone, with no
  preview.
\<close>

theorem validate_replacements_bare_key_counterexample:
  "validate_replacements
     [(py ''slide-0'',
       [(py ''shape-1'',
         \<lparr>shape = Some 0, paragraphs = [], frame_overflow_bottom = None, warnings = []\<rparr>)])]
     [(py ''slide-0'', [(py ''shape-5'', None :: nat list option)])]
   = [Shape_not_found (py ''shape-5'') (py ''slide-0'') [py ''shape-1'']]"
  by (simp add: validate_replacements_def check_slide_key_def check_shape_key_def startswith_def
       unused_with_content_def unused_entry_def)

text \<open>
  C2, amended. The errors of \<^verbatim>\<open>validate_replacements\<close> hold an error naming the slide for
  every replacement key that starts with \<^verbatim>\<open>slide-\<close> and is no key of the inventory, and,
  for every shape key under a known slide that is no shape of that slide, an error that
  names the shape and the slide and lists exactly the shapes of the slide in the inventory
  that have no replacement entry. A listed shape is its key followed by a preview in
  parentheses and quotes, the first 50 characters of the first paragraph's text with three
  dots added when the text is longer, if it has a first paragraph with text, and its key
  alone otherwise. When there is any error, \<^verbatim>\<open>apply_replacements\<close> raises with all of them,
  the presentation in memory is the one loaded and nothing is saved.
\<close>

theorem validate_replacements_reports_all:
  "((slide_key, shapes_data) \<in> set replacements \<and> startswith slide_key (py ''slide-'')
      \<and> map_of inventory slide_key = None
     \<longrightarrow> Slide_not_found slide_key \<in> set (validate_replacements inventory replacements))
   \<and> ((slide_key, shapes_data) \<in> set replacements \<and> startswith slide_key (py ''slide-'')
      \<and> map_of inventory slide_key = Some inventory_shapes
      \<and> shape_key \<in> fst ` set shapes_data \<and> map_of inventory_shapes shape_key = None
     \<longrightarrow> (\<exists>unused. Shape_not_found shape_key slide_key unused
                      \<in> set (validate_replacements inventory replacements)
            \<and> set unused = {unused_entry k sd | k sd.
                               (k, sd) \<in> set inventory_shapes \<and> k \<notin> fst ` set shapes_data}))
   \<and> (paragraphs sd = [] \<longrightarrow> unused_entry k sd = k)
   \<and> (paragraphs sd = p # ps \<and> para_text p = [] \<longrightarrow> unused_entry k sd = k)
   \<and> (paragraphs sd = p # ps \<and> para_text p \<noteq> [] \<and> length (para_text p) \<le> 50
        \<longrightarrow> unused_entry k sd = k @ py '' ('' @ [39] @ para_text p @ [39] @ py '')'')
   \<and> (paragraphs sd = p # ps \<and> length (para_text p) > 50
        \<longrightarrow> unused_entry k sd
            = k @ py '' ('' @ [39] @ take 50 (para_text p) @ py ''...'' @ [39] @ py '')'')
   \<and> (validate_replacements (extract_text_inventory lib prs) repl \<noteq> []
        \<longrightarrow> raised (apply_replacements lib prs repl)
              = Some (Invalid_replacements
                        (validate_replacements (extract_text_inventory lib prs) repl))
            \<and> in_memory (apply_replacements lib prs repl) = prs
            \<and> output_file (apply_replacements lib prs repl) = None)"
proof (intro conjI impI)
  assume a: "(slide_key, shapes_data) \<in> set replacements \<and> startswith slide_key (py ''slide-'')
      \<and> map_of inventory slide_key = None"
  show "Slide_not_found slide_key \<in> set (validate_replacements inventory replacements)"
    unfolding validate_replacements_concat set_concat set_map
    by (rule UN_I [of "[Slide_not_found slide_key]"]) (use a in \<open>force+\<close>)
next
  assume a: "(slide_key, shapes_data) \<in> set replacements \<and> startswith slide_key (py ''slide-'')
      \<and> map_of inventory slide_key = Some inventory_shapes
      \<and> shape_key \<in> fst ` set shapes_data \<and> map_of inventory_shapes shape_key = None"
  let ?unused = "sort (unused_with_content inventory_shapes shapes_data)"
  have "Shape_not_found shape_key slide_key ?unused
          \<in> set (concat (map (\<lambda>shape_key.
                    if map_of inventory_shapes shape_key = None
                    then [Shape_not_found shape_key slide_key ?unused]
                    else []) (map fst shapes_data)))"
    using a by force
  then have "Shape_not_found shape_key slide_key ?unused
          \<in> set (validate_replacements inventory replacements)"
    unfolding validate_replacements_concat set_concat set_map
    by (intro UN_I [of "concat (map (\<lambda>shape_key.
                    if map_of inventory_shapes shape_key = None
                    then [Shape_not_found shape_key slide_key ?unused]
                    else []) (map fst shapes_data))"]) (use a in \<open>force+\<close>)
  moreover have "set ?unused = {unused_entry k sd | k sd.
                               (k, sd) \<in> set inventory_shapes \<and> k \<notin> fst ` set shapes_data}"
    by (simp add: unused_with_content_set)
  ultimately show "\<exists>unused. Shape_not_found shape_key slide_key unused
                      \<in> set (validate_replacements inventory replacements)
            \<and> set unused = {unused_entry k sd | k sd.
                               (k, sd) \<in> set inventory_shapes \<and> k \<notin> fst ` set shapes_data}"
    by blast
next
  assume "paragraphs sd = []"
  then show "unused_entry k sd = k" by (simp add: unused_entry_def)
next
  assume "paragraphs sd = p # ps \<and> para_text p = []"
  then show "unused_entry k sd = k" by (simp add: unused_entry_def)
next
  assume "paragraphs sd = p # ps \<and> para_text p \<noteq> [] \<and> length (para_text p) \<le> 50"
  then show "unused_entry k sd = k @ py '' ('' @ [39] @ para_text p @ [39] @ py '')''"
    by (simp add: unused_entry_def)
next
  assume "paragraphs sd = p # ps \<and> length (para_text p) > 50"
  then show "unused_entry k sd
            = k @ py '' ('' @ [39] @ take 50 (para_text p) @ py ''...'' @ [39] @ py '')''"
    by (auto simp: unused_entry_def)
next
  assume a: "validate_replacements (extract_text_inventory lib prs) repl \<noteq> []"
  then show "raised (apply_replacements lib prs repl)
              = Some (Invalid_replacements
                        (validate_replacements (extract_text_inventory lib prs) repl))"
    by (simp add: apply_replacements_def Let_def)
  from a show "in_memory (apply_replacements lib prs repl) = prs"
    by (simp add: apply_replacements_def Let_def)
  from a show "output_file (apply_replacements lib prs repl) = None"
    by (simp add: apply_replacements_def Let_def)
qed

theorem validate_replacements_reports_all_witness:
  "Slide_not_found (py ''slide-7'')
     \<in> set (validate_replacements example_inventory example_bad_replacements)
   \<and> (\<exists>unused. Shape_not_found (py ''shape-5'') (py ''slide-0'') unused
                  \<in> set (validate_replacements example_inventory example_bad_replacements)
         \<and> set unused = {unused_entry k sd | k sd.
               (k, sd) \<in> set (snd (hd example_inventory))
               \<and> k \<notin> fst ` set [(py ''shape-5'', None :: nat list option)]})
   \<and> unused_entry (py ''shape-1'')
        \<lparr>shape = Some 1, paragraphs = [], frame_overflow_bottom = None, warnings = []\<rparr>
       = py ''shape-1''
   \<and> unused_entry (py ''shape-0'')
        \<lparr>shape = Some 0, paragraphs = [\<lparr>para_text = py ''Hello''\<rparr>],
         frame_overflow_bottom = None, warnings = []\<rparr>
       = py ''shape-0'' @ py '' ('' @ [39] @ py ''Hello'' @ [39] @ py '')''
   \<and> unused_entry (py ''shape-2'')
        \<lparr>shape = Some 2, paragraphs = [\<lparr>para_text = replicate 60 97\<rparr>],
         frame_overflow_bottom = None, warnings = []\<rparr>
       = py ''shape-2'' @ py '' ('' @ [39] @ take 50 (replicate 60 97) @ py ''...'' @ [39] @ py '')''
   \<and> raised (apply_replacements (example_lib 0) example_prs example_bad_replacements)
       = Some (Invalid_replacements
                 (validate_replacements (extract_text_inventory (example_lib 0) example_prs)
                    example_bad_replacements))
   \<and> in_memory (apply_replacements (example_lib 0) example_prs example_bad_replacements)
       = example_prs
   \<and> output_file (apply_replacements (example_lib 0) example_prs example_bad_replacements) = None"
proof -
  note t1 = validate_replacements_reports_all
    [where slide_key = "py ''slide-7''" and shapes_data = "[] :: (pystr \<times> nat list option) list"
       and replacements = example_bad_replacements and inventory = example_inventory
       and sd = "\<lparr>shape = Some 1, paragraphs = [], frame_overflow_bottom = None, warnings = []\<rparr>"
       and k = "py ''shape-1''"
       and lib = "example_lib 0" and prs = example_prs and repl = example_bad_replacements]
  note t2 = validate_replacements_reports_all
    [where slide_key = "py ''slide-0''"
       and shapes_data = "[(py ''shape-5'', None :: nat list option)]"
       and replacements = example_bad_replacements and inventory = example_inventory
       and inventory_shapes = "snd (hd example_inventory)" and shape_key = "py ''shape-5''"
       and sd = "\<lparr>shape = Some 0, paragraphs = [\<lparr>para_text = py ''Hello''\<rparr>],
                  frame_overflow_bottom = None, warnings = []\<rparr>"
       and k = "py ''shape-0''" and p = "\<lparr>para_text = py ''Hello''\<rparr>" and ps = "[]"]
  note t3 = validate_replacements_reports_all
    [where sd = "\<lparr>shape = Some 2, paragraphs = [\<lparr>para_text = replicate 60 97\<rparr>],
                  frame_overflow_bottom = None, warnings = []\<rparr>"
       and k = "py ''shape-2''" and p = "\<lparr>para_text = replicate 60 97\<rparr>" and ps = "[]"]
  have h1: "(py ''slide-7'', []) \<in> set example_bad_replacements
      \<and> startswith (py ''slide-7'') (py ''slide-'')
      \<and> map_of example_inventory (py ''slide-7'') = None"
    by (simp add: example_bad_replacements_def example_inventory_def startswith_def)
  have h2: "(py ''slide-0'', [(py ''shape-5'', None)]) \<in> set example_bad_replacements
      \<and> startswith (py ''slide-0'') (py ''slide-'')
      \<and> map_of example_inventory (py ''slide-0'') = Some (snd (hd example_inventory))
      \<and> py ''shape-5'' \<in> fst ` set [(py ''shape-5'', None :: nat list option)]
      \<and> map_of (snd (hd example_inventory)) (py ''shape-5'') = None"
    by (simp add: example_bad_replacements_def example_inventory_def startswith_def)
  have h7: "validate_replacements (extract_text_inventory (example_lib 0) example_prs)
              example_bad_replacements \<noteq> []"
    by (simp add: example_lib_def example_bad_replacements_def validate_replacements_def
          check_slide_key_def check_shape_key_def startswith_def)
  have a: "Slide_not_found (py ''slide-7'')
     \<in> set (validate_replacements example_inventory example_bad_replacements)"
    by (rule t1 [THEN conjunct1, THEN mp, OF h1])
  have b: "\<exists>unused. Shape_not_found (py ''shape-5'') (py ''slide-0'') unused
                  \<in> set (validate_replacements example_inventory example_bad_replacements)
         \<and> set unused = {unused_entry k sd | k sd.
               (k, sd) \<in> set (snd (hd example_inventory))
               \<and> k \<notin> fst ` set [(py ''shape-5'', None :: nat list option)]}"
    by (rule t2 [THEN conjunct2, THEN conjunct1, THEN mp, OF h2])
  have c: "unused_entry (py ''shape-1'')
        \<lparr>shape = Some 1, paragraphs = [], frame_overflow_bottom = None, warnings = []\<rparr>
       = py ''shape-1''"
    using t1 [THEN conjunct2, THEN conjunct2, THEN conjunct1] by simp
  have d: "unused_entry (py ''shape-0'')
        \<lparr>shape = Some 0, paragraphs = [\<lparr>para_text = py ''Hello''\<rparr>],
         frame_overflow_bottom = None, warnings = []\<rparr>
       = py ''shape-0'' @ py '' ('' @ [39] @ py ''Hello'' @ [39] @ py '')''"
    using t2 [THEN conjunct2, THEN conjunct2, THEN conjunct2, THEN conjunct2, THEN conjunct1]
    by simp
  have e: "unused_entry (py ''shape-2'')
        \<lparr>shape = Some 2, paragraphs = [\<lparr>para_text = replicate 60 97\<rparr>],
         frame_overflow_bottom = None, warnings = []\<rparr>
       = py ''shape-2'' @ py '' ('' @ [39] @ take 50 (replicate 60 97) @ py ''...'' @ [39] @ py '')''"
    using t3 [THEN conjunct2, THEN conjunct2, THEN conjunct2, THEN conjunct2, THEN conjunct2,
        THEN conjunct1]
    by simp
  have f: "raised (apply_replacements (example_lib 0) example_prs example_bad_replacements)
       = Some (Invalid_replacements
                 (validate_replacements (extract_text_inventory (example_lib 0) example_prs)
                    example_bad_replacements))
   \<and> in_memory (apply_replacements (example_lib 0) example_prs example_bad_replacements)
       = example_prs
   \<and> output_file (apply_replacements (example_lib 0) example_prs example_bad_replacements) = None"
    by (rule t1 [THEN conjunct2, THEN conjunct2, THEN conjunct2, THEN conjunct2, THEN conjunct2,
        THEN conjunct2, THEN mp, OF h7])
  show ?thesis
    by (rule conjI [OF a conjI [OF b conjI [OF c conjI [OF d conjI [OF e f]]]]])
qed


end
